theory Spec2Isabelle
  imports Complex_Main "HOL-Library.Multiset"
begin

section \<open>Data model\<close>

text \<open>
  Modelled from the spec: the module \<open>lit_agent.identifiers.base\<close> (the classes
  \<open>IdentifierType\<close>, \<open>AcademicIdentifier\<close> and \<open>IdentifierExtractionResult\<close>) is imported
  by \<open>api.py\<close> but is not among the sources.  The three types follow the data model of
  the specification and the way \<open>api.py\<close> reads and writes their fields.

  \<^item> \<open>IdentifierType\<close> is a closed enumeration.
  \<^item> \<open>confidence\<close> is a Python float in the interval from 0 to 1; only its order and
    \<open>max\<close> are used, so it is a \<open>real\<close>.
  \<^item> \<open>failed_urls\<close> supports \<open>copy\<close>, \<open>in\<close>, \<open>remove\<close> and truthiness; the comment in
    \<open>api.py\<close> calls it a list, and a list it is here (a set is a list without
    repetitions).
  \<^item> \<open>extraction_stats\<close> is a dictionary from key names to Python integers; reading a
    missing key is a \<open>KeyError\<close>.
\<close>

datatype IdentifierType = DOI | PMID | PMC

record AcademicIdentifier =
  type :: IdentifierType
  "value" :: string
  confidence :: real
  source_url :: string

record IdentifierExtractionResult =
  identifiers :: "AcademicIdentifier list"
  failed_urls :: "string list"
  extraction_stats :: "string \<rightharpoonup> int"

section \<open>Exceptions and collaborators\<close>

text \<open>
  A Python exception is a value: \<open>KeyError k\<close> for a dictionary read of a missing key
  \<open>k\<close>, \<open>Raised msg\<close> for anything a collaborator raises.  These are instances of
  Python's class \<open>Exception\<close>, which is what \<open>except Exception\<close> catches; an interrupt
  or the exit of the process is outside the model.
\<close>

datatype exn = KeyError string | Raised string

text \<open>
  Every call that \<open>api.py\<close> makes to another module is an event.  The list of events so
  far is the explicit state of the outside world: the answer of a collaborator (a
  network fetch, a rate limiter, a validation service) may depend on everything that
  was asked before.  A constructor is an event whether it returns or raises.
  \<open>is_pdf_url\<close> is a pure function of the URL: a call of it that returns is followed by
  the call of the extractor it chose and is not listed; \<open>IsPdfUrl url\<close> is a call of it
  that raised, after which the iteration calls no extractor.
\<close>

datatype call =
    NewJournalURLExtractor
  | ExtractFromUrls "string list"
  | ExtractFromUrl string
  | NewCompositeValidator bool bool
  | ValidateIdentifier IdentifierType string
  | GetConfidenceScore IdentifierType string
  | NewWebScrapingExtractor
  | NewPDFExtractor
  | IsPdfUrl string
  | PdfExtractFromUrl string
  | WebExtractFromUrl string

text \<open>
  The collaborators of \<open>api.py\<close> (\<open>JournalURLExtractor\<close>, \<open>CompositeValidator\<close>,
  \<open>WebScrapingExtractor\<close>, \<open>PDFExtractor\<close>) are not among the sources: they are parameters.
  Each constructor and each method takes the calls made so far and either raises or
  returns.  The validator's methods also take the two flags its constructor was given.
  \<open>is_pdf_url\<close> is the classification method of the PDF extractor; it may raise as any
  call may.  \<open>type_value\<close> is the attribute \<open>value\<close> of a member of the enumeration
  \<open>IdentifierType\<close>, which \<open>base.py\<close> fixes.
\<close>

record collaborators =
  new_JournalURLExtractor :: "call list \<Rightarrow> exn + unit"
  journal_extract_from_urls :: "call list \<Rightarrow> string list \<Rightarrow> exn + IdentifierExtractionResult"
  journal_extract_from_url :: "call list \<Rightarrow> string \<Rightarrow> exn + AcademicIdentifier list"
  new_CompositeValidator :: "call list \<Rightarrow> bool \<Rightarrow> bool \<Rightarrow> exn + unit"
  validator_validate_identifier :: "call list \<Rightarrow> bool \<Rightarrow> bool \<Rightarrow> IdentifierType \<Rightarrow> string \<Rightarrow> exn + bool"
  get_confidence_score :: "call list \<Rightarrow> bool \<Rightarrow> bool \<Rightarrow> IdentifierType \<Rightarrow> string \<Rightarrow> exn + real"
  new_WebScrapingExtractor :: "call list \<Rightarrow> exn + unit"
  new_PDFExtractor :: "call list \<Rightarrow> exn + unit"
  is_pdf_url :: "string \<Rightarrow> exn + bool"
  pdf_extract_from_url :: "call list \<Rightarrow> string \<Rightarrow> exn + AcademicIdentifier list"
  web_extract_from_url :: "call list \<Rightarrow> string \<Rightarrow> exn + AcademicIdentifier list"
  type_value :: "IdentifierType \<Rightarrow> string"

section \<open>The validation loop\<close>

text \<open>
  \<^verbatim>\<open>
  for identifier in result.identifiers:
      confidence = validator.get_confidence_score(identifier.type, identifier.value)
      identifier.confidence = max(identifier.confidence, confidence)
  \<close>
  The loop is not inside a \<open>try\<close>: an exception of the validator leaves the function.
  The identifiers of a list are separate objects, so the assignment to the field of one
  replaces that element of the list.
\<close>

fun update_confidence ::
  "collaborators \<Rightarrow> bool \<Rightarrow> bool \<Rightarrow> AcademicIdentifier list \<Rightarrow> call list
     \<Rightarrow> (exn + AcademicIdentifier list) \<times> call list" where
  "update_confidence env use_api use_metapub [] h = (Inr [], h)"
| "update_confidence env use_api use_metapub (identifier # rest) h =
     (case get_confidence_score env h use_api use_metapub (type identifier) (value identifier) of
        Inl e \<Rightarrow> (Inl e, h @ [GetConfidenceScore (type identifier) (value identifier)])
      | Inr c \<Rightarrow>
          (case update_confidence env use_api use_metapub rest
                  (h @ [GetConfidenceScore (type identifier) (value identifier)]) of
             (Inl e, h') \<Rightarrow> (Inl e, h')
           | (Inr rest', h') \<Rightarrow>
               (Inr (identifier\<lparr>confidence := max (confidence identifier) c\<rparr> # rest'), h')))"

text \<open>
  Lines 49 to 60 of \<open>api.py\<close>: the validation step of the batch function.  The
  constructor of the validator (lines 50 to 52) is outside any \<open>try\<close>.
\<close>

definition validation_step ::
  "collaborators \<Rightarrow> bool \<Rightarrow> bool \<Rightarrow> IdentifierExtractionResult \<Rightarrow> call list
     \<Rightarrow> (exn + IdentifierExtractionResult) \<times> call list" where
  "validation_step env use_api_validation use_metapub_validation result h =
     (if use_api_validation \<or> use_metapub_validation then
        (case new_CompositeValidator env h use_api_validation use_metapub_validation of
           Inl e \<Rightarrow> (Inl e, h @ [NewCompositeValidator use_api_validation use_metapub_validation])
         | Inr validator \<Rightarrow>
             (case update_confidence env use_api_validation use_metapub_validation
                     (identifiers result)
                     (h @ [NewCompositeValidator use_api_validation use_metapub_validation]) of
                (Inl e, h') \<Rightarrow> (Inl e, h')
              | (Inr ids, h') \<Rightarrow> (Inr (result\<lparr>identifiers := ids\<rparr>), h')))
      else (Inr result, h))"

section \<open>Phase 2\<close>

text \<open>The mutable state of the Phase 2 loop: the result and the two local lists.\<close>

record sweep_state =
  res :: IdentifierExtractionResult
  phase2_identifiers :: "AcademicIdentifier list"
  successful_urls :: "string list"

text \<open>
  \<open>d[k] += n\<close> on a dictionary: the read raises \<open>KeyError\<close> when the key is missing.
\<close>

definition dict_add :: "(string \<rightharpoonup> int) \<Rightarrow> string \<Rightarrow> int \<Rightarrow> exn + (string \<rightharpoonup> int)" where
  "dict_add d k n = (case d k of None \<Rightarrow> Inl (KeyError k) | Some v \<Rightarrow> Inr (d(k \<mapsto> v + n)))"

text \<open>
  The part of the \<open>try\<close> body after the extractor has returned \<open>identifiers\<close>.  The two
  lists are extended before the statistics are touched, so a \<open>KeyError\<close> of either
  statistics update, which the \<open>except\<close> clause swallows as well, keeps what was done
  before it.
\<close>

definition record_success :: "string \<Rightarrow> AcademicIdentifier list \<Rightarrow> sweep_state \<Rightarrow> sweep_state" where
  "record_success failed_url ids st =
     (if ids = [] then st
      else
        (let st1 = st\<lparr>phase2_identifiers := phase2_identifiers st @ ids,
                      successful_urls := successful_urls st @ [failed_url]\<rparr>
         in (case dict_add (extraction_stats (res st1)) ''successful_extractions'' 1 of
               Inl e \<Rightarrow> st1
             | Inr d1 \<Rightarrow>
                 (case dict_add d1 ''failed_extractions'' (- 1) of
                    Inl e \<Rightarrow> st1\<lparr>res := (res st1)\<lparr>extraction_stats := d1\<rparr>\<rparr>
                  | Inr d2 \<Rightarrow> st1\<lparr>res := (res st1)\<lparr>extraction_stats := d2\<rparr>\<rparr>))))"

text \<open>
  Lines 75 to 78: the extractor call of one iteration, chosen by \<open>is_pdf_url\<close>.
  \<open>phase2_extract\<close> is its outcome (an exception of \<open>is_pdf_url\<close> is an exception of the
  iteration), \<open>phase2_call\<close> the event it leaves.
\<close>

definition phase2_extract :: "collaborators \<Rightarrow> call list \<Rightarrow> string \<Rightarrow> exn + AcademicIdentifier list" where
  "phase2_extract env h failed_url =
     (case is_pdf_url env failed_url of
        Inl e \<Rightarrow> Inl e
      | Inr is_pdf \<Rightarrow>
          if is_pdf then pdf_extract_from_url env h failed_url
          else web_extract_from_url env h failed_url)"

definition phase2_call :: "collaborators \<Rightarrow> string \<Rightarrow> call" where
  "phase2_call env failed_url =
     (case is_pdf_url env failed_url of
        Inl e \<Rightarrow> IsPdfUrl failed_url
      | Inr is_pdf \<Rightarrow>
          if is_pdf then PdfExtractFromUrl failed_url
          else WebExtractFromUrl failed_url)"

text \<open>One iteration: the \<open>try\<close> statement with its \<open>except Exception: pass\<close>.\<close>

definition phase2_try :: "collaborators \<Rightarrow> string \<Rightarrow> sweep_state \<Rightarrow> call list \<Rightarrow> sweep_state \<times> call list" where
  "phase2_try env failed_url st h =
     (case phase2_extract env h failed_url of
        Inl e \<Rightarrow> (st, h @ [phase2_call env failed_url])
      | Inr ids \<Rightarrow> (record_success failed_url ids st, h @ [phase2_call env failed_url]))"

text \<open>The loop over the copy of \<open>failed_urls\<close>.\<close>

fun phase2_sweep :: "collaborators \<Rightarrow> string list \<Rightarrow> sweep_state \<Rightarrow> call list \<Rightarrow> sweep_state \<times> call list" where
  "phase2_sweep env [] st h = (st, h)"
| "phase2_sweep env (failed_url # rest) st h =
     (case phase2_try env failed_url st h of (st', h') \<Rightarrow> phase2_sweep env rest st' h')"

text \<open>
  \<^verbatim>\<open>
  for successful_url in successful_urls:
      if successful_url in result.failed_urls:
          result.failed_urls.remove(successful_url)
  \<close>
  \<open>list.remove\<close> deletes the first occurrence: \<open>remove1\<close>.
\<close>

fun remove_successful :: "string list \<Rightarrow> string list \<Rightarrow> string list" where
  "remove_successful [] failed = failed"
| "remove_successful (successful_url # rest) failed =
     remove_successful rest
       (if successful_url \<in> set failed then remove1 successful_url failed else failed)"

text \<open>
  The loop over \<open>phase2_identifiers\<close> that updates the per-type counts.  It is outside the
  \<open>try\<close>: a missing key raises out of the function.
\<close>

fun update_type_counts :: "AcademicIdentifier list \<Rightarrow> (string \<rightharpoonup> int) \<Rightarrow> exn + (string \<rightharpoonup> int)" where
  "update_type_counts [] d = Inr d"
| "update_type_counts (identifier # rest) d =
     (if type identifier = DOI then
        (case dict_add d ''doi_count'' 1 of Inl e \<Rightarrow> Inl e | Inr d' \<Rightarrow> update_type_counts rest d')
      else if type identifier = PMID then
        (case dict_add d ''pmid_count'' 1 of Inl e \<Rightarrow> Inl e | Inr d' \<Rightarrow> update_type_counts rest d')
      else if type identifier = PMC then
        (case dict_add d ''pmc_count'' 1 of Inl e \<Rightarrow> Inl e | Inr d' \<Rightarrow> update_type_counts rest d')
      else update_type_counts rest d)"

text \<open>
  The body of \<open>if use_web_scraping and result.failed_urls:\<close> (lines 64 to 105).  The two
  constructors (lines 64 and 65) come before the \<open>try\<close> of the loop: an exception of
  either leaves the function.
\<close>

definition phase2 ::
  "collaborators \<Rightarrow> IdentifierExtractionResult \<Rightarrow> call list
     \<Rightarrow> (exn + IdentifierExtractionResult) \<times> call list" where
  "phase2 env result h =
     (case new_WebScrapingExtractor env h of
        Inl e \<Rightarrow> (Inl e, h @ [NewWebScrapingExtractor])
      | Inr web_extractor \<Rightarrow>
          (case new_PDFExtractor env (h @ [NewWebScrapingExtractor]) of
             Inl e \<Rightarrow> (Inl e, h @ [NewWebScrapingExtractor, NewPDFExtractor])
           | Inr pdf_extractor \<Rightarrow>
               (case phase2_sweep env (failed_urls result)
                       \<lparr>res = result, phase2_identifiers = [], successful_urls = []\<rparr>
                       (h @ [NewWebScrapingExtractor, NewPDFExtractor]) of
                  (st, h') \<Rightarrow>
                    let r1 = (res st)\<lparr>failed_urls :=
                                remove_successful (successful_urls st) (failed_urls (res st))\<rparr>;
                        r2 = r1\<lparr>identifiers := identifiers r1 @ phase2_identifiers st\<rparr>
                    in (case update_type_counts (phase2_identifiers st) (extraction_stats r2) of
                          Inl e \<Rightarrow> (Inl e, h')
                        | Inr d \<Rightarrow> (Inr (r2\<lparr>extraction_stats := d\<rparr>), h')))))"

section \<open>The three entry points\<close>

text \<open>Lines 11 to 107.  The constructor of line 43 is outside any \<open>try\<close>.\<close>

definition extract_identifiers_from_bibliography ::
  "collaborators \<Rightarrow> string list \<Rightarrow> bool \<Rightarrow> bool \<Rightarrow> bool
     \<Rightarrow> (exn + IdentifierExtractionResult) \<times> call list" where
  "extract_identifiers_from_bibliography env urls use_web_scraping use_api_validation
       use_metapub_validation =
     (case new_JournalURLExtractor env [] of
        Inl e \<Rightarrow> (Inl e, [NewJournalURLExtractor])
      | Inr extractor \<Rightarrow>
          (case journal_extract_from_urls env [NewJournalURLExtractor] urls of
             Inl e \<Rightarrow> (Inl e, [NewJournalURLExtractor, ExtractFromUrls urls])
           | Inr result \<Rightarrow>
               (case validation_step env use_api_validation use_metapub_validation result
                       [NewJournalURLExtractor, ExtractFromUrls urls] of
                  (Inl e, h) \<Rightarrow> (Inl e, h)
                | (Inr result', h) \<Rightarrow>
                    if use_web_scraping \<and> failed_urls result' \<noteq> [] then phase2 env result' h
                    else (Inr result', h))))"

text \<open>Lines 110 to 145.\<close>

definition extract_identifiers_from_url ::
  "collaborators \<Rightarrow> string \<Rightarrow> bool \<Rightarrow> bool \<Rightarrow> (exn + AcademicIdentifier list) \<times> call list" where
  "extract_identifiers_from_url env url use_api_validation use_metapub_validation =
     (case new_JournalURLExtractor env [] of
        Inl e \<Rightarrow> (Inl e, [NewJournalURLExtractor])
      | Inr extractor \<Rightarrow>
          (case journal_extract_from_url env [NewJournalURLExtractor] url of
             Inl e \<Rightarrow> (Inl e, [NewJournalURLExtractor, ExtractFromUrl url])
           | Inr ids \<Rightarrow>
               if (use_api_validation \<or> use_metapub_validation) \<and> ids \<noteq> [] then
                 (case new_CompositeValidator env [NewJournalURLExtractor, ExtractFromUrl url]
                         use_api_validation use_metapub_validation of
                    Inl e \<Rightarrow>
                      (Inl e, [NewJournalURLExtractor, ExtractFromUrl url,
                               NewCompositeValidator use_api_validation use_metapub_validation])
                  | Inr validator \<Rightarrow>
                      update_confidence env use_api_validation use_metapub_validation ids
                        [NewJournalURLExtractor, ExtractFromUrl url,
                         NewCompositeValidator use_api_validation use_metapub_validation])
               else (Inr ids, [NewJournalURLExtractor, ExtractFromUrl url])))"



section \<open>Observations\<close>

text \<open>
  The definitions of this section are not part of the program: they name what the
  properties below speak about.  \<open>confidence_query\<close> is the event left by one query of the
  validator; \<open>validator_calls\<close> is everything the validation step leaves: nothing when
  both flags are off, else the construction of the validator and one query for each
  identifier, in order.
\<close>

definition confidence_query :: "AcademicIdentifier \<Rightarrow> call" where
  "confidence_query identifier = GetConfidenceScore (type identifier) (value identifier)"

definition validator_calls :: "bool \<Rightarrow> bool \<Rightarrow> AcademicIdentifier list \<Rightarrow> call list" where
  "validator_calls a m ids =
     (if a \<or> m then NewCompositeValidator a m # map confidence_query ids else [])"

text \<open>
  Phase 2 starts from \<open>sweep_start\<close>.  The \<open>k\<close>-th URL of the copy is tried after the
  calls for the URLs before it, so the outcomes of the sweep are a function of the list
  and of the calls made before the sweep: \<open>phase2_outcomes\<close>.  An outcome that is an
  exception or an empty list has \<open>found\<close> empty: the attempt failed.  \<open>recovered_urls\<close>
  are the URLs of the attempts that found something, \<open>unrecovered_urls\<close> those of the
  attempts that failed, \<open>recovered_identifiers\<close> everything found, in the order of the
  sweep.  \<open>phase2_calls\<close> is what Phase 2 leaves in the call list.
\<close>

definition sweep_start :: "IdentifierExtractionResult \<Rightarrow> sweep_state" where
  "sweep_start r = \<lparr>res = r, phase2_identifiers = [], successful_urls = []\<rparr>"

definition found :: "exn + AcademicIdentifier list \<Rightarrow> AcademicIdentifier list" where
  "found outcome = (case outcome of Inl e \<Rightarrow> [] | Inr ids \<Rightarrow> ids)"

fun phase2_outcomes :: "collaborators \<Rightarrow> call list \<Rightarrow> string list \<Rightarrow> (exn + AcademicIdentifier list) list" where
  "phase2_outcomes env h [] = []"
| "phase2_outcomes env h (u # us) =
     phase2_extract env h u # phase2_outcomes env (h @ [phase2_call env u]) us"

definition recovered_urls :: "collaborators \<Rightarrow> call list \<Rightarrow> string list \<Rightarrow> string list" where
  "recovered_urls env h us =
     map fst (filter (\<lambda>(u, outcome). found outcome \<noteq> []) (zip us (phase2_outcomes env h us)))"

definition unrecovered_urls :: "collaborators \<Rightarrow> call list \<Rightarrow> string list \<Rightarrow> string list" where
  "unrecovered_urls env h us =
     map fst (filter (\<lambda>(u, outcome). found outcome = []) (zip us (phase2_outcomes env h us)))"

definition recovered_identifiers :: "collaborators \<Rightarrow> call list \<Rightarrow> string list \<Rightarrow> AcademicIdentifier list" where
  "recovered_identifiers env h us = concat (map found (phase2_outcomes env h us))"

definition phase2_calls :: "collaborators \<Rightarrow> string list \<Rightarrow> call list" where
  "phase2_calls env us = [NewWebScrapingExtractor, NewPDFExtractor] @ map (phase2_call env) us"

fun is_phase2_call :: "call \<Rightarrow> bool" where
  "is_phase2_call NewWebScrapingExtractor = True"
| "is_phase2_call NewPDFExtractor = True"
| "is_phase2_call (IsPdfUrl u) = True"
| "is_phase2_call (PdfExtractFromUrl u) = True"
| "is_phase2_call (WebExtractFromUrl u) = True"
| "is_phase2_call c = False"

text \<open>
  The dispatch in the words of the specification, written without the definitions of
  the program: for a URL, the PDF extractor when \<open>is_pdf_url\<close> holds, otherwise the page
  scraper.  \<open>dispatch_call\<close> is the call this names, \<open>dispatch_outcome\<close> its answer after
  the calls \<open>h\<close>, \<open>dispatch_outcomes\<close> the answers along a list of URLs.
\<close>

definition dispatch_call :: "collaborators \<Rightarrow> string \<Rightarrow> call" where
  "dispatch_call env url =
     (if is_pdf_url env url = Inr True then PdfExtractFromUrl url else WebExtractFromUrl url)"

definition dispatch_outcome :: "collaborators \<Rightarrow> call list \<Rightarrow> string \<Rightarrow> exn + AcademicIdentifier list" where
  "dispatch_outcome env h url =
     (if is_pdf_url env url = Inr True then pdf_extract_from_url env h url
      else web_extract_from_url env h url)"

fun dispatch_outcomes :: "collaborators \<Rightarrow> call list \<Rightarrow> string list \<Rightarrow> (exn + AcademicIdentifier list) list" where
  "dispatch_outcomes env h [] = []"
| "dispatch_outcomes env h (url # urls) =
     dispatch_outcome env h url # dispatch_outcomes env (h @ [dispatch_call env url]) urls"

text \<open>
  \<open>count_key\<close> is the key that the last loop of Phase 2 increments for an identifier of
  a given type; \<open>type_count\<close> is the number of identifiers of a type in a list.
\<close>

definition count_key :: "IdentifierType \<Rightarrow> string" where
  "count_key t = (case t of DOI \<Rightarrow> ''doi_count'' | PMID \<Rightarrow> ''pmid_count'' | PMC \<Rightarrow> ''pmc_count'')"

definition type_count :: "IdentifierType \<Rightarrow> AcademicIdentifier list \<Rightarrow> int" where
  "type_count t ids = int (length (filter (\<lambda>identifier. type identifier = t) ids))"

section \<open>A concrete scenario\<close>

text \<open>
  Three bibliography URLs.  Phase 1 reads a PMID off the first and fails on the other
  two.  The validator confirms PMIDs only.  In Phase 2 the page scraper finds a DOI on
  the journal page, and the PDF extractor raises.  In \<open>raising_env\<close> the constructor of
  the validator raises.
\<close>

definition pubmed_url :: string where
  "pubmed_url = ''https://pubmed.ncbi.nlm.nih.gov/37674083/''"

definition oup_url :: string where
  "oup_url = ''https://academic.oup.com/brain/article/145/1/64/6367770''"

definition pdf_url :: string where
  "pdf_url = ''https://escholarship.org/content/qt0b29m655/qt0b29m655.pdf''"

definition demo_urls :: "string list" where
  "demo_urls = [pubmed_url, oup_url, pdf_url]"

definition demo_pmid :: AcademicIdentifier where
  "demo_pmid = \<lparr>type = PMID, value = ''37674083'', confidence = 0.9, source_url = pubmed_url\<rparr>"

definition demo_doi :: AcademicIdentifier where
  "demo_doi = \<lparr>type = DOI, value = ''10.1093/brain/awab376'', confidence = 0.8, source_url = oup_url\<rparr>"

definition demo_phase1 :: IdentifierExtractionResult where
  "demo_phase1 =
     \<lparr>identifiers = [demo_pmid],
      failed_urls = [oup_url, pdf_url],
      extraction_stats =
        [''successful_extractions'' \<mapsto> 1, ''failed_extractions'' \<mapsto> 2,
         ''doi_count'' \<mapsto> 0, ''pmid_count'' \<mapsto> 1, ''pmc_count'' \<mapsto> 0]\<rparr>"

definition demo_env :: collaborators where
  "demo_env =
     \<lparr>new_JournalURLExtractor = (\<lambda>h. Inr ()),
      journal_extract_from_urls = (\<lambda>h urls. Inr demo_phase1),
      journal_extract_from_url = (\<lambda>h url. Inr (if url = pubmed_url then [demo_pmid] else [])),
      new_CompositeValidator = (\<lambda>h use_api use_metapub. Inr ()),
      validator_validate_identifier = (\<lambda>h use_api use_metapub t v. Inr (t = PMID)),
      get_confidence_score = (\<lambda>h use_api use_metapub t v. Inr (if t = PMID then 0.95 else 0)),
      new_WebScrapingExtractor = (\<lambda>h. Inr ()),
      new_PDFExtractor = (\<lambda>h. Inr ()),
      is_pdf_url = (\<lambda>url. Inr (url = pdf_url)),
      pdf_extract_from_url = (\<lambda>h url. Inl (Raised ''timeout'')),
      web_extract_from_url = (\<lambda>h url. Inr (if url = oup_url then [demo_doi] else [])),
      type_value = (\<lambda>t. case t of DOI \<Rightarrow> ''doi'' | PMID \<Rightarrow> ''pmid'' | PMC \<Rightarrow> ''pmc'')\<rparr>"


definition demo_validated :: IdentifierExtractionResult where
  "demo_validated = demo_phase1\<lparr>identifiers := [demo_pmid\<lparr>confidence := 0.95\<rparr>]\<rparr>"

definition demo_log2 :: "call list" where
  "demo_log2 = [NewJournalURLExtractor, ExtractFromUrls demo_urls, NewCompositeValidator True True,
                GetConfidenceScore PMID ''37674083'']"

definition demo_final :: IdentifierExtractionResult where
  "demo_final =
     \<lparr>identifiers = [demo_pmid\<lparr>confidence := 0.95\<rparr>, demo_doi],
      failed_urls = [pdf_url],
      extraction_stats =
        (extraction_stats demo_phase1)
          (''successful_extractions'' \<mapsto> 2, ''failed_extractions'' \<mapsto> 1, ''doi_count'' \<mapsto> 1)\<rparr>"

definition demo_log :: "call list" where
  "demo_log = demo_log2 @ [NewWebScrapingExtractor, NewPDFExtractor,
                           WebExtractFromUrl oup_url, PdfExtractFromUrl pdf_url]"

section \<open>Properties of the validation loop\<close>

text \<open>
  What a completed run of the loop has done: one query per identifier, in order, and
  the \<open>k\<close>-th identifier changed in its confidence only, to the maximum of what it was
  and what the validator answered at that moment.
\<close>

lemma update_confidence_Cons:
  "update_confidence env a m (i # rest) h = (Inr ids', h') \<Longrightarrow>
     \<exists>c rest'. get_confidence_score env h a m (type i) (value i) = Inr c
        \<and> update_confidence env a m rest (h @ [confidence_query i]) = (Inr rest', h')
        \<and> ids' = i\<lparr>confidence := max (confidence i) c\<rparr> # rest'"
  by (auto simp: confidence_query_def split: sum.splits prod.splits)

lemma update_confidence_log:
  "update_confidence env a m ids h = (Inr ids', h') \<Longrightarrow> h' = h @ map confidence_query ids"
proof (induction ids arbitrary: h ids' h')
  case Nil
  then show ?case by simp
next
  case (Cons i rest)
  from update_confidence_Cons[OF Cons.prems] obtain rest' where
    "update_confidence env a m rest (h @ [confidence_query i]) = (Inr rest', h')" by blast
  from Cons.IH[OF this] show ?case by simp
qed

lemma update_confidence_length:
  "update_confidence env a m ids h = (Inr ids', h') \<Longrightarrow> length ids' = length ids"
proof (induction ids arbitrary: h ids' h')
  case Nil
  then show ?case by simp
next
  case (Cons i rest)
  from update_confidence_Cons[OF Cons.prems] obtain c rest' where
    "update_confidence env a m rest (h @ [confidence_query i]) = (Inr rest', h')"
    "ids' = i\<lparr>confidence := max (confidence i) c\<rparr> # rest'" by blast
  with Cons.IH show ?case by simp
qed

lemma update_confidence_nth:
  "update_confidence env a m ids h = (Inr ids', h') \<Longrightarrow> k < length ids \<Longrightarrow>
     \<exists>c. get_confidence_score env (h @ map confidence_query (take k ids)) a m
            (type (ids ! k)) (value (ids ! k)) = Inr c
        \<and> ids' ! k = (ids ! k)\<lparr>confidence := max (confidence (ids ! k)) c\<rparr>"
proof (induction ids arbitrary: h ids' h' k)
  case Nil
  then show ?case by simp
next
  case (Cons i rest)
  from update_confidence_Cons[OF Cons.prems(1)] obtain c rest' where
    c: "get_confidence_score env h a m (type i) (value i) = Inr c" and
    r: "update_confidence env a m rest (h @ [confidence_query i]) = (Inr rest', h')" and
    e: "ids' = i\<lparr>confidence := max (confidence i) c\<rparr> # rest'"
    by blast
  show ?case
  proof (cases k)
    case 0
    with c e show ?thesis by simp
  next
    case (Suc j)
    with Cons.prems(2) have "j < length rest" by simp
    from Cons.IH[OF r this] Suc e show ?thesis by simp
  qed
qed

lemma update_confidence_mono:
  assumes "update_confidence env a m ids h = (Inr ids', h')" and "k < length ids"
  shows "confidence (ids ! k) \<le> confidence (ids' ! k)"
  using update_confidence_nth[OF assms] by auto

lemma update_confidence_maps:
  "update_confidence env a m ids h = (Inr ids', h') \<Longrightarrow>
     map type ids' = map type ids \<and> map value ids' = map value ids
       \<and> map source_url ids' = map source_url ids"
proof (induction ids arbitrary: h ids' h')
  case Nil
  then show ?case by simp
next
  case (Cons i rest)
  from update_confidence_Cons[OF Cons.prems] obtain c rest' where
    r: "update_confidence env a m rest (h @ [confidence_query i]) = (Inr rest', h')" and
    e: "ids' = i\<lparr>confidence := max (confidence i) c\<rparr> # rest'" by blast
  from Cons.IH[OF r] e show ?case by simp
qed

lemma update_confidence_log_prefix:
  "\<exists>n. snd (update_confidence env a m ids h) = h @ map confidence_query (take n ids)"
proof (induction ids arbitrary: h)
  case Nil
  then show ?case by simp
next
  case (Cons i rest)
  show ?case
  proof (cases "get_confidence_score env h a m (type i) (value i)")
    case (Inl e)
    then have "snd (update_confidence env a m (i # rest) h)
                 = h @ map confidence_query (take 1 (i # rest))"
      by (simp add: confidence_query_def)
    then show ?thesis by blast
  next
    case (Inr c)
    from Cons.IH[of "h @ [confidence_query i]"] obtain n where
      n: "snd (update_confidence env a m rest (h @ [confidence_query i]))
            = (h @ [confidence_query i]) @ map confidence_query (take n rest)" by blast
    from Inr have "snd (update_confidence env a m (i # rest) h)
                 = snd (update_confidence env a m rest (h @ [confidence_query i]))"
      by (auto simp: confidence_query_def split: prod.splits sum.splits)
    with n have "snd (update_confidence env a m (i # rest) h)
                 = h @ map confidence_query (take (Suc n) (i # rest))"
      by simp
    then show ?thesis by blast
  qed
qed

lemma update_confidence_total:
  "(\<And>h t v. \<exists>c. get_confidence_score env h a m t v = Inr c) \<Longrightarrow>
     \<exists>ids'. update_confidence env a m ids h = (Inr ids', h @ map confidence_query ids)"
proof (induction ids arbitrary: h)
  case Nil
  then show ?case by simp
next
  case (Cons i rest)
  from Cons.prems obtain c where c: "get_confidence_score env h a m (type i) (value i) = Inr c"
    by blast
  from Cons.IH[OF Cons.prems, of "h @ [confidence_query i]"] obtain rest' where
    "update_confidence env a m rest (h @ [confidence_query i])
       = (Inr rest', (h @ [confidence_query i]) @ map confidence_query rest)" by blast
  with c show ?case by (simp add: confidence_query_def)
qed


lemma validation_step_Inr:
  assumes "validation_step env a m r h = (Inr r', h')"
  shows "r' = r\<lparr>identifiers := identifiers r'\<rparr>"
    and "h' = h @ validator_calls a m (identifiers r)"
    and "length (identifiers r') = length (identifiers r)"
    and "map type (identifiers r') = map type (identifiers r)"
    and "map value (identifiers r') = map value (identifiers r)"
    and "map source_url (identifiers r') = map source_url (identifiers r)"
    and "a \<or> m \<Longrightarrow> update_confidence env a m (identifiers r) (h @ [NewCompositeValidator a m])
            = (Inr (identifiers r'), h')"
    and "\<not> (a \<or> m) \<Longrightarrow> r' = r"
    and "a \<or> m \<Longrightarrow> new_CompositeValidator env h a m = Inr ()"
proof -
  show "a \<or> m \<Longrightarrow> new_CompositeValidator env h a m = Inr ()"
    using assms by (auto simp: validation_step_def split: sum.splits)
  show "\<not> (a \<or> m) \<Longrightarrow> r' = r" using assms by (simp add: validation_step_def)
  show u: "a \<or> m \<Longrightarrow> update_confidence env a m (identifiers r) (h @ [NewCompositeValidator a m])
            = (Inr (identifiers r'), h')"
    using assms by (auto simp: validation_step_def split: prod.splits sum.splits)
  show "r' = r\<lparr>identifiers := identifiers r'\<rparr>"
    using assms by (auto simp: validation_step_def split: prod.splits sum.splits if_splits)
  show "h' = h @ validator_calls a m (identifiers r)"
  proof (cases "a \<or> m")
    case True
    from update_confidence_log[OF u[OF True]] True show ?thesis
      by (simp add: validator_calls_def)
  next
    case False
    with assms show ?thesis by (simp add: validation_step_def validator_calls_def)
  qed
  show "length (identifiers r') = length (identifiers r)"
  proof (cases "a \<or> m")
    case True
    from update_confidence_length[OF u[OF True]] show ?thesis .
  next
    case False
    with assms show ?thesis by (simp add: validation_step_def)
  qed
  show "map type (identifiers r') = map type (identifiers r)"
       "map value (identifiers r') = map value (identifiers r)"
       "map source_url (identifiers r') = map source_url (identifiers r)"
  proof -
    have "map type (identifiers r') = map type (identifiers r)
        \<and> map value (identifiers r') = map value (identifiers r)
        \<and> map source_url (identifiers r') = map source_url (identifiers r)"
    proof (cases "a \<or> m")
      case True
      from update_confidence_maps[OF u[OF True]] show ?thesis .
    next
      case False
      with assms show ?thesis by (simp add: validation_step_def)
    qed
    then show "map type (identifiers r') = map type (identifiers r)"
       "map value (identifiers r') = map value (identifiers r)"
       "map source_url (identifiers r') = map source_url (identifiers r)" by simp_all
  qed
qed

lemma validation_step_total:
  assumes "\<And>h t v. \<exists>c. get_confidence_score env h a m t v = Inr c"
      and ctor: "a \<or> m \<Longrightarrow> new_CompositeValidator env h a m = Inr ()"
  shows "\<exists>r'. validation_step env a m r h = (Inr r', h @ validator_calls a m (identifiers r))"
proof (cases "a \<or> m")
  case True
  from update_confidence_total[of env a m "identifiers r" "h @ [NewCompositeValidator a m]"] assms(1)
  obtain ids' where "update_confidence env a m (identifiers r) (h @ [NewCompositeValidator a m])
     = (Inr ids', (h @ [NewCompositeValidator a m]) @ map confidence_query (identifiers r))"
    by blast
  with True ctor show ?thesis by (simp add: validation_step_def validator_calls_def)
next
  case False
  then show ?thesis by (simp add: validation_step_def validator_calls_def)
qed


section \<open>Properties of the Phase 2 sweep\<close>

text \<open>
  An attempt that finds nothing leaves the loop state as it is; an attempt that finds
  identifiers extends the two lists and, when both keys are present, moves one unit from
  \<open>failed_extractions\<close> to \<open>successful_extractions\<close>.  The sweep never touches
  \<open>identifiers\<close>, \<open>failed_urls\<close> or any other key.
\<close>

lemma record_success_Nil [simp]: "record_success u [] st = st"
  by (simp add: record_success_def)

lemma phase2_try_found:
  "phase2_try env u st h = (record_success u (found (phase2_extract env h u)) st, h @ [phase2_call env u])"
  by (simp add: phase2_try_def found_def split: sum.splits)

lemma record_success_phase2_identifiers:
  "phase2_identifiers (record_success u ids st) = phase2_identifiers st @ ids"
  by (simp add: record_success_def Let_def split: sum.splits)

lemma record_success_successful_urls:
  "successful_urls (record_success u ids st) = successful_urls st @ (if ids = [] then [] else [u])"
  by (simp add: record_success_def Let_def split: sum.splits)

lemma record_success_identifiers:
  "identifiers (res (record_success u ids st)) = identifiers (res st)"
  by (simp add: record_success_def Let_def split: sum.splits)

lemma record_success_failed_urls:
  "failed_urls (res (record_success u ids st)) = failed_urls (res st)"
  by (simp add: record_success_def Let_def split: sum.splits)

lemma record_success_stats:
  assumes "extraction_stats (res st) ''successful_extractions'' = Some s"
      and "extraction_stats (res st) ''failed_extractions'' = Some f"
  shows "extraction_stats (res (record_success u ids st)) k =
           (if ids \<noteq> [] \<and> k = ''successful_extractions'' then Some (s + 1)
            else if ids \<noteq> [] \<and> k = ''failed_extractions'' then Some (f - 1)
            else extraction_stats (res st) k)"
  using assms by (simp add: record_success_def Let_def dict_add_def)

lemma record_success_stats_other:
  "k \<noteq> ''successful_extractions'' \<Longrightarrow> k \<noteq> ''failed_extractions'' \<Longrightarrow>
     extraction_stats (res (record_success u ids st)) k = extraction_stats (res st) k"
  by (simp add: record_success_def Let_def dict_add_def split: option.splits)

lemma phase2_outcomes_length [simp]: "length (phase2_outcomes env h us) = length us"
  by (induction us arbitrary: h) simp_all

lemma phase2_outcomes_append:
  "phase2_outcomes env h (before @ us)
     = phase2_outcomes env h before @ phase2_outcomes env (h @ map (phase2_call env) before) us"
  by (induction before arbitrary: h) simp_all

lemma phase2_sweep_log: "snd (phase2_sweep env us st h) = h @ map (phase2_call env) us"
  by (induction us arbitrary: st h) (simp_all add: phase2_try_found)

lemma phase2_sweep_append:
  "phase2_sweep env (before @ us) st h
     = phase2_sweep env us (fst (phase2_sweep env before st h)) (h @ map (phase2_call env) before)"
  by (induction before arbitrary: st h) (simp_all add: phase2_try_found)

lemma phase2_sweep_phase2_identifiers:
  "phase2_identifiers (fst (phase2_sweep env us st h)) = phase2_identifiers st @ recovered_identifiers env h us"
  by (induction us arbitrary: st h)
     (simp_all add: phase2_try_found recovered_identifiers_def record_success_phase2_identifiers)

lemma phase2_sweep_successful_urls:
  "successful_urls (fst (phase2_sweep env us st h)) = successful_urls st @ recovered_urls env h us"
  by (induction us arbitrary: st h)
     (simp_all add: phase2_try_found recovered_urls_def record_success_successful_urls)

lemma phase2_sweep_identifiers:
  "identifiers (res (fst (phase2_sweep env us st h))) = identifiers (res st)"
  by (induction us arbitrary: st h) (simp_all add: phase2_try_found record_success_identifiers)

lemma phase2_sweep_failed_urls:
  "failed_urls (res (fst (phase2_sweep env us st h))) = failed_urls (res st)"
  by (induction us arbitrary: st h) (simp_all add: phase2_try_found record_success_failed_urls)

lemma phase2_sweep_stats:
  "extraction_stats (res st) ''successful_extractions'' = Some s \<Longrightarrow>
   extraction_stats (res st) ''failed_extractions'' = Some f \<Longrightarrow>
   extraction_stats (res (fst (phase2_sweep env us st h))) k =
     (if k = ''successful_extractions'' then Some (s + int (length (recovered_urls env h us)))
      else if k = ''failed_extractions'' then Some (f - int (length (recovered_urls env h us)))
      else extraction_stats (res st) k)"
proof (induction us arbitrary: st h s f)
  case Nil
  then show ?case by (simp add: recovered_urls_def)
next
  case (Cons u us)
  let ?ids = "found (phase2_extract env h u)"
  let ?st = "record_success u ?ids st"
  let ?h = "h @ [phase2_call env u]"
  show ?case
  proof (cases "?ids = []")
    case True
    then have "recovered_urls env h (u # us) = recovered_urls env ?h us"
      by (simp add: recovered_urls_def)
    with True Cons.IH[OF Cons.prems, of ?h] show ?thesis
      by (simp add: phase2_try_found)
  next
    case False
    have s: "extraction_stats (res ?st) ''successful_extractions'' = Some (s + 1)"
      and f: "extraction_stats (res ?st) ''failed_extractions'' = Some (f - 1)"
      using False by (simp_all add: record_success_stats[OF Cons.prems])
    have r: "recovered_urls env h (u # us) = u # recovered_urls env ?h us"
      using False by (simp add: recovered_urls_def)
    have o: "extraction_stats (res ?st) k = extraction_stats (res st) k"
      if "k \<noteq> ''successful_extractions''" "k \<noteq> ''failed_extractions''"
      using that by (simp add: record_success_stats[OF Cons.prems])
    from Cons.IH[OF s f, of ?h] r o show ?thesis
      by (simp add: phase2_try_found)
  qed
qed

lemma phase2_sweep_stats_other:
  "k \<noteq> ''successful_extractions'' \<Longrightarrow> k \<noteq> ''failed_extractions'' \<Longrightarrow>
     extraction_stats (res (fst (phase2_sweep env us st h))) k = extraction_stats (res st) k"
  by (induction us arbitrary: st h) (simp_all add: phase2_try_found record_success_stats_other)

lemma classified_dispatch:
  assumes "is_pdf_url env url = Inr b"
  shows "phase2_extract env h url = dispatch_outcome env h url"
    and "phase2_call env url = dispatch_call env url"
  using assms by (simp_all add: phase2_extract_def phase2_call_def dispatch_outcome_def dispatch_call_def)

lemma classified_calls:
  assumes "\<forall>url \<in> set us. \<exists>b. is_pdf_url env url = Inr b"
  shows "map (phase2_call env) us = map (dispatch_call env) us"
proof (rule map_cong[OF refl])
  fix url assume "url \<in> set us"
  with assms obtain b where "is_pdf_url env url = Inr b" by blast
  then show "phase2_call env url = dispatch_call env url" by (rule classified_dispatch(2))
qed

lemma classified_outcomes:
  "\<forall>url \<in> set us. \<exists>b. is_pdf_url env url = Inr b \<Longrightarrow>
     phase2_outcomes env h us = dispatch_outcomes env h us"
proof (induction us arbitrary: h)
  case Nil
  then show ?case by simp
next
  case (Cons u us)
  from Cons.prems obtain b where b: "is_pdf_url env u = Inr b" by auto
  from Cons.prems have "\<forall>url \<in> set us. \<exists>b. is_pdf_url env url = Inr b" by simp
  from Cons.IH[OF this] classified_dispatch[OF b] show ?case by simp
qed

section \<open>Properties of the removal loop\<close>

text \<open>
  Each entry of \<open>successful_urls\<close> removes one occurrence.  After the sweep the list of
  failed URLs holds, as a multiset, the URLs of the failed attempts; when it had no
  repetition, it is the old list without the recovered URLs.
\<close>

lemma remove_successful_mset: "mset (remove_successful ss fu) = mset fu - mset ss"
proof (induction ss arbitrary: fu)
  case Nil
  then show ?case by simp
next
  case (Cons s ss)
  have "mset (if s \<in> set fu then remove1 s fu else fu) = mset fu - {#s#}"
    by (simp add: diff_single_trivial)
  with Cons.IH[of "if s \<in> set fu then remove1 s fu else fu"] show ?case
    by (simp del: mset_remove1)
qed

lemma remove_successful_subset: "set (remove_successful ss fu) \<subseteq> set fu"
proof -
  have "mset (remove_successful ss fu) \<subseteq># mset fu"
    by (simp add: remove_successful_mset)
  from set_mset_mono[OF this] show ?thesis by simp
qed

lemma remove1_if_filter:
  "distinct fu \<Longrightarrow> (if s \<in> set fu then remove1 s fu else fu) = filter (\<lambda>u. u \<noteq> s) fu"
  by (induction fu) auto

lemma remove_successful_filter:
  "distinct fu \<Longrightarrow> remove_successful ss fu = filter (\<lambda>u. u \<notin> set ss) fu"
proof (induction ss arbitrary: fu)
  case Nil
  then show ?case by simp
next
  case (Cons s ss)
  let ?fu = "if s \<in> set fu then remove1 s fu else fu"
  from Cons.prems have e: "?fu = filter (\<lambda>u. u \<noteq> s) fu" by (rule remove1_if_filter)
  from Cons.prems have "distinct ?fu" by simp
  from Cons.IH[OF this] have "remove_successful (s # ss) fu = filter (\<lambda>u. u \<notin> set ss) ?fu"
    by simp
  also have "\<dots> = filter (\<lambda>u. u \<notin> set ss) (filter (\<lambda>u. u \<noteq> s) fu)"
    by (simp only: e)
  also have "\<dots> = filter (\<lambda>u. u \<notin> set (s # ss)) fu"
    by (simp add: conj_commute)
  finally show ?case .
qed

lemma recovered_urls_mset: "mset (recovered_urls env h us) \<subseteq># mset us"
proof -
  let ?zs = "zip us (phase2_outcomes env h us)"
  have "image_mset fst (filter_mset (\<lambda>(u, outcome). found outcome \<noteq> []) (mset ?zs))
          \<subseteq># image_mset fst (mset ?zs)"
    by (rule image_mset_subseteq_mono) simp
  moreover have "map fst ?zs = us" by simp
  then have "image_mset fst (mset ?zs) = mset us" by (metis mset_map)
  ultimately show ?thesis by (simp add: recovered_urls_def)
qed

lemma remove_recovered_length:
  "int (length (remove_successful (recovered_urls env h us) us))
     = int (length us) - int (length (recovered_urls env h us))"
proof -
  have "size (mset (remove_successful (recovered_urls env h us) us))
          = size (mset us) - size (mset (recovered_urls env h us))"
    by (simp add: remove_successful_mset size_Diff_submset recovered_urls_mset del: size_mset)
  moreover have "length (recovered_urls env h us) \<le> length us"
    using size_mset_mono[OF recovered_urls_mset] by simp
  ultimately show ?thesis by simp
qed

lemma filter_partition_mset:
  "mset (map f (filter P zs)) + mset (map f (filter (\<lambda>z. \<not> P z) zs)) = mset (map f zs)"
  by (induction zs) simp_all

lemma recovered_unrecovered_mset:
  "mset (recovered_urls env h us) + mset (unrecovered_urls env h us) = mset us"
proof -
  let ?zs = "zip us (phase2_outcomes env h us)"
  let ?P = "\<lambda>(u, outcome). found outcome \<noteq> []"
  have n: "(\<lambda>(u, outcome). found outcome = []) = (\<lambda>z. \<not> ?P z)" by auto
  have "mset (recovered_urls env h us) + mset (unrecovered_urls env h us) = mset (map fst ?zs)"
    unfolding recovered_urls_def unrecovered_urls_def n by (rule filter_partition_mset)
  also have "map fst ?zs = us" by simp
  finally show ?thesis .
qed

lemma remove_recovered_mset:
  "mset (remove_successful (recovered_urls env h us) us) = mset (unrecovered_urls env h us)"
proof -
  have "mset us - mset (recovered_urls env h us)
          = (mset (recovered_urls env h us) + mset (unrecovered_urls env h us))
              - mset (recovered_urls env h us)"
    by (simp only: recovered_unrecovered_mset)
  also have "\<dots> = mset (unrecovered_urls env h us)" by simp
  finally show ?thesis by (simp only: remove_successful_mset)
qed

lemma unrecovered_urls_member:
  assumes "found (phase2_extract env (h @ map (phase2_call env) before) u) = []"
  shows "u \<in> set (unrecovered_urls env h (before @ u # after))"
proof -
  have "length (phase2_outcomes env h before) = length before" by simp
  then show ?thesis
    using assms by (simp add: unrecovered_urls_def phase2_outcomes_append)
qed

section \<open>Properties of the per-type counts\<close>

text \<open>
  The loop over the new identifiers adds to each count key the number of new
  identifiers of that type and leaves every other key alone; it returns when the three
  keys are present.
\<close>

lemma count_key_inj: "count_key t = count_key t' \<longleftrightarrow> t = t'"
  by (cases t; cases t') (simp_all add: count_key_def)

lemma not_count_key [simp]:
  "''successful_extractions'' \<noteq> count_key t" "''failed_extractions'' \<noteq> count_key t"
  by (cases t; simp add: count_key_def)+

lemma count_key_not [simp]:
  "count_key t \<noteq> ''successful_extractions''" "count_key t \<noteq> ''failed_extractions''"
  by (cases t; simp add: count_key_def)+

lemma type_count_map: "type_count t ids = int (length (filter (\<lambda>x. x = t) (map type ids)))"
  by (simp add: type_count_def filter_map comp_def)

lemma type_count_append: "type_count t (xs @ ys) = type_count t xs + type_count t ys"
  by (simp add: type_count_def)

lemma update_type_counts_step:
  "update_type_counts (i # rest) d =
     (case dict_add d (count_key (type i)) 1 of Inl e \<Rightarrow> Inl e | Inr d' \<Rightarrow> update_type_counts rest d')"
  by (cases "type i") (simp_all add: count_key_def)

lemma update_type_counts_Inr:
  "update_type_counts ids d = Inr d' \<Longrightarrow>
     (\<forall>t n. d (count_key t) = Some n \<longrightarrow> d' (count_key t) = Some (n + type_count t ids))
     \<and> (\<forall>k. (\<forall>t. k \<noteq> count_key t) \<longrightarrow> d' k = d k)"
proof (induction ids arbitrary: d)
  case Nil
  then show ?case by (simp add: type_count_def)
next
  case (Cons i rest)
  from Cons.prems obtain n where n: "d (count_key (type i)) = Some n"
    and r: "update_type_counts rest (d(count_key (type i) \<mapsto> n + 1)) = Inr d'"
    by (auto simp: update_type_counts_step dict_add_def simp del: update_type_counts.simps
             split: option.splits)
  let ?d = "d(count_key (type i) \<mapsto> n + 1)"
  from Cons.IH[OF r] have
    c: "\<And>t n. ?d (count_key t) = Some n \<Longrightarrow> d' (count_key t) = Some (n + type_count t rest)"
    and o: "\<And>k. (\<forall>t. k \<noteq> count_key t) \<Longrightarrow> d' k = ?d k"
    by blast+
  have 2: "d' (count_key t) = Some (m + type_count t (i # rest))" if "d (count_key t) = Some m" for t m
  proof (cases "t = type i")
    case True
    with that n have "?d (count_key t) = Some (m + 1)" by simp
    from c[OF this] True show ?thesis by (simp add: type_count_def)
  next
    case False
    with that have "?d (count_key t) = Some m" by (simp add: count_key_inj)
    from c[OF this] False show ?thesis by (simp add: type_count_def)
  qed
  have 3: "d' k = d k" if "\<forall>t. k \<noteq> count_key t" for k
    using o[OF that] that by simp
  from 2 3 show ?case by blast
qed

lemma update_type_counts_ok:
  "(\<And>t. \<exists>n. d (count_key t) = Some n) \<Longrightarrow>
   \<exists>d'. update_type_counts ids d = Inr d'
     \<and> (\<forall>t n. d (count_key t) = Some n \<longrightarrow> d' (count_key t) = Some (n + type_count t ids))
     \<and> (\<forall>k. (\<forall>t. k \<noteq> count_key t) \<longrightarrow> d' k = d k)"
proof (induction ids arbitrary: d)
  case Nil
  then show ?case by (simp add: type_count_def)
next
  case (Cons i rest)
  from Cons.prems obtain n where n: "d (count_key (type i)) = Some n" by blast
  let ?d = "d(count_key (type i) \<mapsto> n + 1)"
  have keys: "\<exists>n. ?d (count_key t) = Some n" for t
    using Cons.prems by simp
  from Cons.IH[of ?d, OF keys] obtain d' where
    d': "update_type_counts rest ?d = Inr d'"
    and c: "\<And>t n. ?d (count_key t) = Some n \<Longrightarrow> d' (count_key t) = Some (n + type_count t rest)"
    and o: "\<And>k. (\<forall>t. k \<noteq> count_key t) \<Longrightarrow> d' k = ?d k"
    by blast
  have 1: "update_type_counts (i # rest) d = Inr d'"
    using n d' by (simp add: update_type_counts_step dict_add_def del: update_type_counts.simps)
  have 2: "d' (count_key t) = Some (m + type_count t (i # rest))" if "d (count_key t) = Some m" for t m
  proof (cases "t = type i")
    case True
    with that n have "?d (count_key t) = Some (m + 1)" by simp
    from c[OF this] True show ?thesis by (simp add: type_count_def)
  next
    case False
    with that have "?d (count_key t) = Some m" by (simp add: count_key_inj)
    from c[OF this] False show ?thesis by (simp add: type_count_def)
  qed
  have 3: "d' k = d k" if "\<forall>t. k \<noteq> count_key t" for k
    using o[OF that] that by simp
  from 1 2 3 show ?case by blast
qed

lemma update_type_counts_total:
  "(\<And>t. \<exists>n. d (count_key t) = Some n) \<Longrightarrow> \<exists>d'. update_type_counts ids d = Inr d'"
  using update_type_counts_ok[of d ids] by blast


section \<open>Phase 2 and the batch function\<close>

text \<open>
  Phase 2 as a whole, and the batch function split at its two conditionals.
\<close>

lemma phase2_unfold:
  assumes cw: "new_WebScrapingExtractor env h = Inr ()"
      and cp: "new_PDFExtractor env (h @ [NewWebScrapingExtractor]) = Inr ()"
  shows "phase2 env r h =
     (case update_type_counts (recovered_identifiers env (h @ [NewWebScrapingExtractor, NewPDFExtractor]) (failed_urls r))
             (extraction_stats (res (fst (phase2_sweep env (failed_urls r) (sweep_start r)
                 (h @ [NewWebScrapingExtractor, NewPDFExtractor]))))) of
        Inl e \<Rightarrow> (Inl e, h @ phase2_calls env (failed_urls r))
      | Inr d \<Rightarrow>
          (Inr \<lparr>identifiers = identifiers r @ recovered_identifiers env (h @ [NewWebScrapingExtractor, NewPDFExtractor]) (failed_urls r),
                failed_urls = remove_successful (recovered_urls env (h @ [NewWebScrapingExtractor, NewPDFExtractor]) (failed_urls r)) (failed_urls r),
                extraction_stats = d\<rparr>,
           h @ phase2_calls env (failed_urls r)))"
proof -
  let ?h3 = "h @ [NewWebScrapingExtractor, NewPDFExtractor]"
  let ?sw = "phase2_sweep env (failed_urls r) (sweep_start r) ?h3"
  have l: "snd ?sw = h @ phase2_calls env (failed_urls r)"
    by (simp add: phase2_sweep_log phase2_calls_def)
  have p: "phase2_identifiers (fst ?sw) = recovered_identifiers env ?h3 (failed_urls r)"
    by (simp add: phase2_sweep_phase2_identifiers sweep_start_def)
  have s: "successful_urls (fst ?sw) = recovered_urls env ?h3 (failed_urls r)"
    by (simp add: phase2_sweep_successful_urls sweep_start_def)
  have i: "identifiers (res (fst ?sw)) = identifiers r"
    by (simp add: phase2_sweep_identifiers sweep_start_def)
  have f: "failed_urls (res (fst ?sw)) = failed_urls r"
    by (simp add: phase2_sweep_failed_urls sweep_start_def)
  have "phase2 env r h =
     (case update_type_counts (phase2_identifiers (fst ?sw)) (extraction_stats (res (fst ?sw))) of
        Inl e \<Rightarrow> (Inl e, snd ?sw)
      | Inr d \<Rightarrow>
          (Inr \<lparr>identifiers = identifiers (res (fst ?sw)) @ phase2_identifiers (fst ?sw),
                failed_urls = remove_successful (successful_urls (fst ?sw)) (failed_urls (res (fst ?sw))),
                extraction_stats = d\<rparr>,
           snd ?sw))"
    using cw cp by (simp add: phase2_def sweep_start_def Let_def split: prod.splits sum.splits)
  then show ?thesis by (simp only: l p s i f)
qed

lemma phase2_constructed:
  assumes "phase2 env r h = (Inr r', h')"
  shows "new_WebScrapingExtractor env h = Inr ()"
    and "new_PDFExtractor env (h @ [NewWebScrapingExtractor]) = Inr ()"
  using assms by (simp_all add: phase2_def split: sum.splits)

lemma phase2_log:
  assumes "new_WebScrapingExtractor env h = Inr ()"
      and "new_PDFExtractor env (h @ [NewWebScrapingExtractor]) = Inr ()"
  shows "snd (phase2 env r h) = h @ phase2_calls env (failed_urls r)"
  by (simp add: phase2_unfold[OF assms] split: sum.splits)

lemma phase2_Inr:
  assumes "phase2 env r h = (Inr r', h')"
  shows "h' = h @ phase2_calls env (failed_urls r)"
    and "identifiers r' = identifiers r
           @ recovered_identifiers env (h @ [NewWebScrapingExtractor, NewPDFExtractor]) (failed_urls r)"
    and "failed_urls r' = remove_successful
           (recovered_urls env (h @ [NewWebScrapingExtractor, NewPDFExtractor]) (failed_urls r))
           (failed_urls r)"
    and "update_type_counts
           (recovered_identifiers env (h @ [NewWebScrapingExtractor, NewPDFExtractor]) (failed_urls r))
           (extraction_stats (res (fst (phase2_sweep env (failed_urls r) (sweep_start r)
                 (h @ [NewWebScrapingExtractor, NewPDFExtractor])))))
         = Inr (extraction_stats r')"
  using assms
  by (auto simp: phase2_unfold[OF phase2_constructed[OF assms]] split: sum.splits)

lemma phase2_appends:
  assumes "phase2 env r h = (Inr r', h')"
  shows "\<exists>ys. identifiers r' = identifiers r @ ys"
  using phase2_Inr(2)[OF assms] by blast

lemma phase2_total:
  assumes "\<And>t. \<exists>n. extraction_stats r (count_key t) = Some n"
      and cw: "new_WebScrapingExtractor env h = Inr ()"
      and cp: "new_PDFExtractor env (h @ [NewWebScrapingExtractor]) = Inr ()"
  shows "\<exists>r'. phase2 env r h = (Inr r', h @ phase2_calls env (failed_urls r))"
proof -
  let ?h3 = "h @ [NewWebScrapingExtractor, NewPDFExtractor]"
  let ?d = "extraction_stats (res (fst (phase2_sweep env (failed_urls r) (sweep_start r) ?h3)))"
  have "?d (count_key t) = extraction_stats r (count_key t)" for t
    by (simp add: phase2_sweep_stats_other sweep_start_def)
  with assms(1) have "\<exists>n. ?d (count_key t) = Some n" for t by simp
  from update_type_counts_total[of ?d, OF this] obtain d' where
    "update_type_counts (recovered_identifiers env ?h3 (failed_urls r)) ?d = Inr d'" by blast
  then show ?thesis by (simp add: phase2_unfold[OF cw cp])
qed


lemma phase2_stats_counts:
  assumes "phase2 env r h = (Inr r', h')"
      and "extraction_stats r (count_key t) = Some n"
  shows "extraction_stats r' (count_key t)
           = Some (n + type_count t (recovered_identifiers env
                        (h @ [NewWebScrapingExtractor, NewPDFExtractor]) (failed_urls r)))"
proof -
  let ?h3 = "h @ [NewWebScrapingExtractor, NewPDFExtractor]"
  let ?d = "extraction_stats (res (fst (phase2_sweep env (failed_urls r) (sweep_start r) ?h3)))"
  have "?d (count_key t) = Some n"
    using assms(2) by (simp add: phase2_sweep_stats_other sweep_start_def)
  with update_type_counts_Inr[OF phase2_Inr(4)[OF assms(1)]] show ?thesis by blast
qed

lemma phase2_stats_extractions:
  assumes "phase2 env r h = (Inr r', h')"
      and "extraction_stats r ''successful_extractions'' = Some s"
      and "extraction_stats r ''failed_extractions'' = Some f"
  shows "extraction_stats r' ''successful_extractions''
           = Some (s + int (length (recovered_urls env
                        (h @ [NewWebScrapingExtractor, NewPDFExtractor]) (failed_urls r))))"
    and "extraction_stats r' ''failed_extractions''
           = Some (f - int (length (recovered_urls env
                        (h @ [NewWebScrapingExtractor, NewPDFExtractor]) (failed_urls r))))"
proof -
  let ?h3 = "h @ [NewWebScrapingExtractor, NewPDFExtractor]"
  let ?st = "sweep_start r"
  let ?d = "extraction_stats (res (fst (phase2_sweep env (failed_urls r) ?st ?h3)))"
  have s: "extraction_stats (res ?st) ''successful_extractions'' = Some s"
    and f: "extraction_stats (res ?st) ''failed_extractions'' = Some f"
    using assms(2,3) by (simp_all add: sweep_start_def)
  note sw = phase2_sweep_stats[OF s f, of env "failed_urls r" ?h3]
  from update_type_counts_Inr[OF phase2_Inr(4)[OF assms(1)]]
  have o: "\<And>k. (\<forall>t. k \<noteq> count_key t) \<Longrightarrow> extraction_stats r' k = ?d k" by blast
  have "extraction_stats r' ''successful_extractions'' = ?d ''successful_extractions''"
    by (rule o) simp
  with sw[of "''successful_extractions''"]
  show "extraction_stats r' ''successful_extractions''
           = Some (s + int (length (recovered_urls env ?h3 (failed_urls r))))" by simp
  have "extraction_stats r' ''failed_extractions'' = ?d ''failed_extractions''"
    by (rule o) simp
  with sw[of "''failed_extractions''"]
  show "extraction_stats r' ''failed_extractions''
           = Some (f - int (length (recovered_urls env ?h3 (failed_urls r))))" by simp
qed

lemma batch_constructed:
  assumes "extract_identifiers_from_bibliography env urls ws a m = (Inr r, h)"
  shows "new_JournalURLExtractor env [] = Inr ()"
  using assms by (simp add: extract_identifiers_from_bibliography_def split: sum.splits)

lemma batch_unfold:
  assumes "new_JournalURLExtractor env [] = Inr ()"
      and "journal_extract_from_urls env [NewJournalURLExtractor] urls = Inr r1"
      and "validation_step env a m r1 [NewJournalURLExtractor, ExtractFromUrls urls] = (Inr r2, h2)"
  shows "extract_identifiers_from_bibliography env urls ws a m =
           (if ws \<and> failed_urls r2 \<noteq> [] then phase2 env r2 h2 else (Inr r2, h2))"
  using assms by (simp add: extract_identifiers_from_bibliography_def)

lemma batch_run:
  assumes run: "extract_identifiers_from_bibliography env urls ws a m = (Inr r, h)"
      and p1: "journal_extract_from_urls env [NewJournalURLExtractor] urls = Inr r1"
  shows "\<exists>r2 h2.
    validation_step env a m r1 [NewJournalURLExtractor, ExtractFromUrls urls] = (Inr r2, h2)
    \<and> (if ws \<and> failed_urls r2 \<noteq> [] then phase2 env r2 h2 else (Inr r2, h2)) = (Inr r, h)"
proof (cases "validation_step env a m r1 [NewJournalURLExtractor, ExtractFromUrls urls]")
  case (Pair outcome h2)
  note c0 = batch_constructed[OF run]
  show ?thesis
  proof (cases outcome)
    case (Inl e)
    with Pair run c0 p1 show ?thesis
      by (simp add: extract_identifiers_from_bibliography_def)
  next
    case (Inr r2)
    with Pair have v: "validation_step env a m r1 [NewJournalURLExtractor, ExtractFromUrls urls]
                         = (Inr r2, h2)" by simp
    from batch_unfold[OF c0 p1 v, of ws] run have
      "(if ws \<and> failed_urls r2 \<noteq> [] then phase2 env r2 h2 else (Inr r2, h2)) = (Inr r, h)"
      by (simp only:)
    with v show ?thesis by blast
  qed
qed



lemma url_run:
  assumes run: "extract_identifiers_from_url env url a m = (Inr ids', h')"
      and p1: "journal_extract_from_url env [NewJournalURLExtractor] url = Inr ids"
  shows "if (a \<or> m) \<and> ids \<noteq> [] then
           update_confidence env a m ids
             [NewJournalURLExtractor, ExtractFromUrl url, NewCompositeValidator a m] = (Inr ids', h')
         else ids' = ids \<and> h' = [NewJournalURLExtractor, ExtractFromUrl url]"
proof (cases "new_JournalURLExtractor env []")
  case (Inl e)
  with run show ?thesis by (simp add: extract_identifiers_from_url_def)
next
  case c0: (Inr u)
  show ?thesis
  proof (cases "(a \<or> m) \<and> ids \<noteq> []")
    case True
    show ?thesis
    proof (cases "new_CompositeValidator env [NewJournalURLExtractor, ExtractFromUrl url] a m")
      case (Inl e)
      with run c0 p1 True show ?thesis by (simp add: extract_identifiers_from_url_def)
    next
      case (Inr v)
      with run c0 p1 True show ?thesis by (simp add: extract_identifiers_from_url_def)
    qed
  next
    case False
    with run c0 p1 show ?thesis by (auto simp: extract_identifiers_from_url_def)
  qed
qed

section \<open>The scenario, run\<close>

text \<open>
  The scenario, evaluated.
\<close>

lemmas demo_defs = pubmed_url_def oup_url_def pdf_url_def demo_urls_def demo_pmid_def demo_doi_def
  demo_phase1_def demo_env_def demo_validated_def demo_log2_def demo_final_def demo_log_def

lemma demo_constructed: "new_JournalURLExtractor demo_env [] = Inr ()"
  by (simp add: demo_env_def)

lemma demo_web_constructed: "new_WebScrapingExtractor demo_env demo_log2 = Inr ()"
  by (simp add: demo_env_def)

lemma demo_pdf_constructed:
  "new_PDFExtractor demo_env (demo_log2 @ [NewWebScrapingExtractor]) = Inr ()"
  by (simp add: demo_env_def)

lemma demo_phase1_run:
  "journal_extract_from_urls demo_env [NewJournalURLExtractor] demo_urls = Inr demo_phase1"
  by (simp add: demo_env_def)

lemma demo_validation_run:
  "validation_step demo_env True True demo_phase1 [NewJournalURLExtractor, ExtractFromUrls demo_urls]
     = (Inr demo_validated, demo_log2)"
  by (simp add: validation_step_def demo_defs)

lemma demo_phase2_run: "phase2 demo_env demo_validated demo_log2 = (Inr demo_final, demo_log)"
  by (simp add: phase2_def phase2_try_def phase2_extract_def phase2_call_def record_success_def
        dict_add_def Let_def demo_defs)

lemma demo_run:
  "extract_identifiers_from_bibliography demo_env demo_urls True True True = (Inr demo_final, demo_log)"
proof -
  have "failed_urls demo_validated \<noteq> []" by (simp add: demo_validated_def demo_phase1_def)
  then show ?thesis
    by (simp add: batch_unfold[OF demo_constructed demo_phase1_run demo_validation_run]
          demo_phase2_run)
qed

lemma demo_url_run:
  "extract_identifiers_from_url demo_env pubmed_url True True
     = (Inr [demo_pmid\<lparr>confidence := 0.95\<rparr>],
        [NewJournalURLExtractor, ExtractFromUrl pubmed_url, NewCompositeValidator True True,
         GetConfidenceScore PMID ''37674083''])"
  by (simp add: extract_identifiers_from_url_def demo_env_def demo_pmid_def)

lemma demo_keys: "\<forall>t. \<exists>n. extraction_stats demo_phase1 (count_key t) = Some n"
proof
  fix t show "\<exists>n. extraction_stats demo_phase1 (count_key t) = Some n"
    by (cases t) (simp_all add: count_key_def demo_phase1_def)
qed

lemma demo_counts:
  "\<forall>t. extraction_stats demo_phase1 (count_key t) = Some (type_count t (identifiers demo_phase1))"
proof
  fix t show "extraction_stats demo_phase1 (count_key t) = Some (type_count t (identifiers demo_phase1))"
    by (cases t) (simp_all add: count_key_def type_count_def demo_phase1_def demo_pmid_def)
qed


lemma demo_snapshot: "failed_urls demo_phase1 = [oup_url] @ pdf_url # []"
  by (simp add: demo_phase1_def)

lemma demo_pdf_fails:
  "found (phase2_extract demo_env
            (demo_log2 @ [NewWebScrapingExtractor, NewPDFExtractor] @ map (phase2_call demo_env) [oup_url])
            pdf_url) = []"
  by (simp add: found_def phase2_extract_def demo_env_def)

lemma demo_succ: "extraction_stats demo_phase1 ''successful_extractions'' = Some 1"
  by (simp add: demo_phase1_def)

lemma demo_fail: "extraction_stats demo_phase1 ''failed_extractions'' = Some 2"
  by (simp add: demo_phase1_def)

lemma demo_failed_nonempty: "failed_urls demo_phase1 \<noteq> []"
  by (simp add: demo_phase1_def)

section \<open>The claims\<close>

text \<open>
  Claim C1.  Confidence never decreases across the stages of the pipeline.  In a batch
  run that returns, every identifier of Phase 1 is still in the result at the same
  position, with a confidence that is at least what Phase 1 gave it: when a validation
  flag is set it is the identifier of Phase 1 with its confidence replaced by the
  maximum of that confidence and the score the validator returned for it, and otherwise
  it is unchanged; Phase 2 only appends.  The same holds for the list returned by
  \<open>extract_identifiers_from_url\<close>.  Here \<open>a\<close> and \<open>m\<close> are the two validation flags.
\<close>

theorem confidence_monotone:
  "(extract_identifiers_from_bibliography env urls ws a m = (Inr r, h) \<longrightarrow>
    journal_extract_from_urls env [NewJournalURLExtractor] urls = Inr r1 \<longrightarrow>
      length (identifiers r1) \<le> length (identifiers r) \<and>
      (\<forall>k<length (identifiers r1).
         confidence (identifiers r1 ! k) \<le> confidence (identifiers r ! k) \<and>
         (if a \<or> m then
            \<exists>c. get_confidence_score env
                   ([NewJournalURLExtractor, ExtractFromUrls urls, NewCompositeValidator a m]
                      @ map confidence_query (take k (identifiers r1)))
                   a m (type (identifiers r1 ! k)) (value (identifiers r1 ! k)) = Inr c
               \<and> identifiers r ! k
                    = (identifiers r1 ! k)\<lparr>confidence := max (confidence (identifiers r1 ! k)) c\<rparr>
          else identifiers r ! k = identifiers r1 ! k)))
   \<and>
   (extract_identifiers_from_url env url a m = (Inr ids', h') \<longrightarrow>
    journal_extract_from_url env [NewJournalURLExtractor] url = Inr ids \<longrightarrow>
      length ids' = length ids \<and>
      (\<forall>k<length ids.
         confidence (ids ! k) \<le> confidence (ids' ! k) \<and>
         (if a \<or> m then
            \<exists>c. get_confidence_score env
                   ([NewJournalURLExtractor, ExtractFromUrl url, NewCompositeValidator a m]
                      @ map confidence_query (take k ids))
                   a m (type (ids ! k)) (value (ids ! k)) = Inr c
               \<and> ids' ! k = (ids ! k)\<lparr>confidence := max (confidence (ids ! k)) c\<rparr>
          else ids' ! k = ids ! k)))"
proof (intro conjI impI)
  assume run: "extract_identifiers_from_bibliography env urls ws a m = (Inr r, h)"
     and p1: "journal_extract_from_urls env [NewJournalURLExtractor] urls = Inr r1"
  from batch_run[OF run p1] obtain r2 h2 where
    v: "validation_step env a m r1 [NewJournalURLExtractor, ExtractFromUrls urls] = (Inr r2, h2)"
    and p2: "(if ws \<and> failed_urls r2 \<noteq> [] then phase2 env r2 h2 else (Inr r2, h2)) = (Inr r, h)"
    by blast
  have len2: "length (identifiers r2) = length (identifiers r1)"
    by (rule validation_step_Inr(3)[OF v])
  have "\<exists>ys. identifiers r = identifiers r2 @ ys"
  proof (cases "ws \<and> failed_urls r2 \<noteq> []")
    case True
    with p2 have "phase2 env r2 h2 = (Inr r, h)" by simp
    from phase2_appends[OF this] show ?thesis .
  next
    case False
    with p2 show ?thesis by simp
  qed
  then obtain ys where ys: "identifiers r = identifiers r2 @ ys" ..
  then have nth: "identifiers r ! k = identifiers r2 ! k" if "k < length (identifiers r1)" for k
    using that len2 by (simp add: nth_append)
  show "length (identifiers r1) \<le> length (identifiers r)"
    using ys len2 by simp
  show "\<forall>k<length (identifiers r1).
         confidence (identifiers r1 ! k) \<le> confidence (identifiers r ! k) \<and>
         (if a \<or> m then
            \<exists>c. get_confidence_score env
                   ([NewJournalURLExtractor, ExtractFromUrls urls, NewCompositeValidator a m]
                      @ map confidence_query (take k (identifiers r1)))
                   a m (type (identifiers r1 ! k)) (value (identifiers r1 ! k)) = Inr c
               \<and> identifiers r ! k
                    = (identifiers r1 ! k)\<lparr>confidence := max (confidence (identifiers r1 ! k)) c\<rparr>
          else identifiers r ! k = identifiers r1 ! k)"
  proof (intro allI impI)
    fix k assume k: "k < length (identifiers r1)"
    show "confidence (identifiers r1 ! k) \<le> confidence (identifiers r ! k) \<and>
         (if a \<or> m then
            \<exists>c. get_confidence_score env
                   ([NewJournalURLExtractor, ExtractFromUrls urls, NewCompositeValidator a m]
                      @ map confidence_query (take k (identifiers r1)))
                   a m (type (identifiers r1 ! k)) (value (identifiers r1 ! k)) = Inr c
               \<and> identifiers r ! k
                    = (identifiers r1 ! k)\<lparr>confidence := max (confidence (identifiers r1 ! k)) c\<rparr>
          else identifiers r ! k = identifiers r1 ! k)"
    proof (cases "a \<or> m")
      case True
      from validation_step_Inr(7)[OF v True]
      have u: "update_confidence env a m (identifiers r1)
                 ([NewJournalURLExtractor, ExtractFromUrls urls] @ [NewCompositeValidator a m])
               = (Inr (identifiers r2), h2)" .
      from update_confidence_nth[OF u k] nth[OF k] True show ?thesis by auto
    next
      case False
      from validation_step_Inr(8)[OF v False] nth[OF k] False show ?thesis by simp
    qed
  qed
next
  assume run: "extract_identifiers_from_url env url a m = (Inr ids', h')"
     and p1: "journal_extract_from_url env [NewJournalURLExtractor] url = Inr ids"
  note u = url_run[OF run p1]
  show "length ids' = length ids"
    using u update_confidence_length[of env a m ids _ ids' h']
    by (auto split: if_splits)
  show "\<forall>k<length ids.
         confidence (ids ! k) \<le> confidence (ids' ! k) \<and>
         (if a \<or> m then
            \<exists>c. get_confidence_score env
                   ([NewJournalURLExtractor, ExtractFromUrl url, NewCompositeValidator a m]
                      @ map confidence_query (take k ids))
                   a m (type (ids ! k)) (value (ids ! k)) = Inr c
               \<and> ids' ! k = (ids ! k)\<lparr>confidence := max (confidence (ids ! k)) c\<rparr>
          else ids' ! k = ids ! k)"
  proof (intro allI impI)
    fix k assume k: "k < length ids"
    then have ne: "ids \<noteq> []" by auto
    show "confidence (ids ! k) \<le> confidence (ids' ! k) \<and>
         (if a \<or> m then
            \<exists>c. get_confidence_score env
                   ([NewJournalURLExtractor, ExtractFromUrl url, NewCompositeValidator a m]
                      @ map confidence_query (take k ids))
                   a m (type (ids ! k)) (value (ids ! k)) = Inr c
               \<and> ids' ! k = (ids ! k)\<lparr>confidence := max (confidence (ids ! k)) c\<rparr>
          else ids' ! k = ids ! k)"
    proof (cases "a \<or> m")
      case True
      with u ne have uc: "update_confidence env a m ids
          [NewJournalURLExtractor, ExtractFromUrl url, NewCompositeValidator a m] = (Inr ids', h')"
        by simp
      from update_confidence_nth[OF uc k] True show ?thesis by auto
    next
      case False
      with u show ?thesis by simp
    qed
  qed
qed

text \<open>
  In the scenario the PMID goes from 0.9 to 0.95, in the batch run and in the run on a
  single URL.
\<close>

theorem confidence_monotone_witness:
  "extract_identifiers_from_bibliography demo_env demo_urls True True True = (Inr demo_final, demo_log)
   \<and> journal_extract_from_urls demo_env [NewJournalURLExtractor] demo_urls = Inr demo_phase1
   \<and> (0::nat) < length (identifiers demo_phase1)
   \<and> confidence (identifiers demo_phase1 ! 0) \<le> confidence (identifiers demo_final ! 0)
   \<and> extract_identifiers_from_url demo_env pubmed_url True True
        = (Inr [demo_pmid\<lparr>confidence := 0.95\<rparr>],
           [NewJournalURLExtractor, ExtractFromUrl pubmed_url, NewCompositeValidator True True,
            GetConfidenceScore PMID ''37674083''])
   \<and> journal_extract_from_url demo_env [NewJournalURLExtractor] pubmed_url = Inr [demo_pmid]
   \<and> confidence ([demo_pmid] ! 0) \<le> confidence ([demo_pmid\<lparr>confidence := 0.95\<rparr>] ! 0)"
proof -
  have u: "journal_extract_from_url demo_env [NewJournalURLExtractor] pubmed_url = Inr [demo_pmid]"
    by (simp add: demo_env_def)
  have l: "(0::nat) < length (identifiers demo_phase1)" by (simp add: demo_phase1_def)
  note t = confidence_monotone[where env = demo_env and urls = demo_urls and ws = True
      and a = True and m = True and r = demo_final and h = demo_log and ?r1.0 = demo_phase1
      and url = pubmed_url and ids' = "[demo_pmid\<lparr>confidence := 0.95\<rparr>]"
      and h' = "[NewJournalURLExtractor, ExtractFromUrl pubmed_url, NewCompositeValidator True True,
            GetConfidenceScore PMID ''37674083'']" and ids = "[demo_pmid]"]
  from t demo_run demo_phase1_run l
  have 1: "confidence (identifiers demo_phase1 ! 0) \<le> confidence (identifiers demo_final ! 0)"
    by blast
  from t demo_url_run u
  have 2: "confidence ([demo_pmid] ! 0) \<le> confidence ([demo_pmid\<lparr>confidence := 0.95\<rparr>] ! 0)"
    by (elim conjE) (simp del: nth_Cons_0)
  from demo_run demo_phase1_run l 1 demo_url_run u 2 show ?thesis by blast
qed

text \<open>
  Claim C2.  Phase 2 preserves the sum of \<open>successful_extractions\<close> and
  \<open>failed_extractions\<close>.  Let Phase 1 return \<open>r1\<close> with the two counts \<open>s\<close> and \<open>f\<close>.  A
  batch run that returns has recovered some number \<open>n\<close> of URLs, which is the number of
  entries that left \<open>failed_urls\<close>; the first count is then \<open>s + n\<close> and the second
  \<open>f - n\<close>.  So when the two counts of Phase 1 add up to the number of input URLs (the
  Pattern Extractor, which is not among the sources, is to establish that), the counts
  of the result do.
\<close>

theorem extraction_counts_sum_preserved:
  assumes run: "extract_identifiers_from_bibliography env urls use_web_scraping a m = (Inr r, h)"
      and p1: "journal_extract_from_urls env [NewJournalURLExtractor] urls = Inr r1"
      and s: "extraction_stats r1 ''successful_extractions'' = Some s"
      and f: "extraction_stats r1 ''failed_extractions'' = Some f"
  shows "\<exists>n. int (length (failed_urls r)) = int (length (failed_urls r1)) - n \<and> 0 \<le> n
           \<and> extraction_stats r ''successful_extractions'' = Some (s + n)
           \<and> extraction_stats r ''failed_extractions'' = Some (f - n)
           \<and> (s + f = int (length urls) \<longrightarrow> (s + n) + (f - n) = int (length urls))"
proof -
  from batch_run[OF run p1] obtain r2 h2 where
    v: "validation_step env a m r1 [NewJournalURLExtractor, ExtractFromUrls urls] = (Inr r2, h2)"
    and p2: "(if use_web_scraping \<and> failed_urls r2 \<noteq> [] then phase2 env r2 h2 else (Inr r2, h2)) = (Inr r, h)"
    by blast
  have r2: "r2 = r1\<lparr>identifiers := identifiers r2\<rparr>" by (rule validation_step_Inr(1)[OF v])
  have fu: "failed_urls r2 = failed_urls r1" by (subst r2) simp
  have st: "extraction_stats r2 = extraction_stats r1" by (subst r2) simp
  show ?thesis
  proof (cases "use_web_scraping \<and> failed_urls r2 \<noteq> []")
    case True
    with p2 have ph: "phase2 env r2 h2 = (Inr r, h)" by simp
    let ?rec = "recovered_urls env (h2 @ [NewWebScrapingExtractor, NewPDFExtractor]) (failed_urls r2)"
    have "int (length (failed_urls r)) = int (length (failed_urls r1)) - int (length ?rec)"
      using remove_recovered_length[of env _ "failed_urls r2"] phase2_Inr(3)[OF ph] fu by simp
    moreover note phase2_stats_extractions[OF ph, of s f]
    ultimately show ?thesis using s f st by (intro exI[of _ "int (length ?rec)"]) simp
  next
    case False
    with p2 have "r = r2" by simp
    with fu st s f show ?thesis by (intro exI[of _ 0]) simp
  qed
qed

text \<open>
  In the scenario Phase 1 counts 1 success and 2 failures for 3 URLs, and Phase 2
  recovers one URL.
\<close>

theorem extraction_counts_sum_preserved_witness:
  "extract_identifiers_from_bibliography demo_env demo_urls True True True = (Inr demo_final, demo_log)
   \<and> journal_extract_from_urls demo_env [NewJournalURLExtractor] demo_urls = Inr demo_phase1
   \<and> extraction_stats demo_phase1 ''successful_extractions'' = Some 1
   \<and> extraction_stats demo_phase1 ''failed_extractions'' = Some 2
   \<and> 1 + 2 = int (length demo_urls)
   \<and> (\<exists>n. int (length (failed_urls demo_final)) = int (length (failed_urls demo_phase1)) - n
          \<and> 0 \<le> n
          \<and> extraction_stats demo_final ''successful_extractions'' = Some (1 + n)
          \<and> extraction_stats demo_final ''failed_extractions'' = Some (2 - n)
          \<and> (1 + n) + (2 - n) = int (length demo_urls))"
proof -
  have l: "1 + 2 = int (length demo_urls)" by (simp add: demo_urls_def)
  from extraction_counts_sum_preserved[OF demo_run demo_phase1_run demo_succ demo_fail] l
  have "\<exists>n. int (length (failed_urls demo_final)) = int (length (failed_urls demo_phase1)) - n
          \<and> 0 \<le> n
          \<and> extraction_stats demo_final ''successful_extractions'' = Some (1 + n)
          \<and> extraction_stats demo_final ''failed_extractions'' = Some (2 - n)
          \<and> (1 + n) + (2 - n) = int (length demo_urls)"
    by blast
  with demo_run demo_phase1_run demo_succ demo_fail l show ?thesis by blast
qed

text \<open>
  Claim C3.  A failure of Phase 2 on one URL is swallowed.  Let the failed URLs of
  Phase 1 be \<open>before @ failed_url # after\<close>, and let the attempt on \<open>failed_url\<close>, made
  after the attempts on \<open>before\<close>, raise or find nothing.  Then that iteration leaves the
  state of the loop as it found it (so no statistic changes), the sweep goes on with
  \<open>after\<close> from the state reached after \<open>before\<close>, the batch call returns a result, with
  the extractor calls for all the URLs in its call list, and \<open>failed_url\<close> is still among
  the failed URLs of that result.  A failure on a URL presupposes that the sweep was
  reached: the constructors of lines 43, 64 and 65 have returned (that of the validator
  is part of the validation step).  The three count keys are assumed present, as the
  data model has it: the loop that updates them is outside the \<open>try\<close>.
\<close>

theorem phase2_failure_is_swallowed:
  assumes c0: "new_JournalURLExtractor env [] = Inr ()"
      and p1: "journal_extract_from_urls env [NewJournalURLExtractor] urls = Inr r1"
      and v: "validation_step env a m r1 [NewJournalURLExtractor, ExtractFromUrls urls] = (Inr r2, h2)"
      and cw: "new_WebScrapingExtractor env h2 = Inr ()"
      and cp: "new_PDFExtractor env (h2 @ [NewWebScrapingExtractor]) = Inr ()"
      and snap: "failed_urls r1 = before @ failed_url # after"
      and fail: "found (phase2_extract env
                   (h2 @ [NewWebScrapingExtractor, NewPDFExtractor] @ map (phase2_call env) before)
                   failed_url) = []"
      and keys: "\<forall>t. \<exists>n. extraction_stats r1 (count_key t) = Some n"
  shows "(\<exists>r. extract_identifiers_from_bibliography env urls True a m
                = (Inr r, h2 @ phase2_calls env (before @ failed_url # after))
             \<and> failed_url \<in> set (failed_urls r))
       \<and> (\<forall>st. phase2_try env failed_url st
                  (h2 @ [NewWebScrapingExtractor, NewPDFExtractor] @ map (phase2_call env) before)
                = (st, h2 @ [NewWebScrapingExtractor, NewPDFExtractor]
                          @ map (phase2_call env) (before @ [failed_url])))
       \<and> (\<forall>st. phase2_sweep env (before @ failed_url # after) st
                  (h2 @ [NewWebScrapingExtractor, NewPDFExtractor])
                = phase2_sweep env after
                    (fst (phase2_sweep env before st (h2 @ [NewWebScrapingExtractor, NewPDFExtractor])))
                    (h2 @ [NewWebScrapingExtractor, NewPDFExtractor]
                        @ map (phase2_call env) (before @ [failed_url])))"
proof (intro conjI allI)
  let ?h3 = "h2 @ [NewWebScrapingExtractor, NewPDFExtractor]"
  have r2: "r2 = r1\<lparr>identifiers := identifiers r2\<rparr>" by (rule validation_step_Inr(1)[OF v])
  have fu: "failed_urls r2 = before @ failed_url # after" by (subst r2) (simp add: snap)
  have st: "extraction_stats r2 = extraction_stats r1" by (subst r2) simp
  from keys st have "\<exists>n. extraction_stats r2 (count_key t) = Some n" for t by simp
  from phase2_total[of r2 env h2, OF this cw cp] obtain r where
    ph: "phase2 env r2 h2 = (Inr r, h2 @ phase2_calls env (failed_urls r2))" by blast
  with fu have run: "extract_identifiers_from_bibliography env urls True a m
                = (Inr r, h2 @ phase2_calls env (before @ failed_url # after))"
    by (simp add: batch_unfold[OF c0 p1 v])
  have "mset (failed_urls r) = mset (unrecovered_urls env ?h3 (before @ failed_url # after))"
    using phase2_Inr(3)[OF ph] fu by (simp only: remove_recovered_mset)
  then have "set (failed_urls r) = set (unrecovered_urls env ?h3 (before @ failed_url # after))"
    by (rule mset_eq_setD)
  moreover have "failed_url \<in> set (unrecovered_urls env ?h3 (before @ failed_url # after))"
    using fail by (intro unrecovered_urls_member) simp
  ultimately have "failed_url \<in> set (failed_urls r)" by simp
  with run show "\<exists>r. extract_identifiers_from_bibliography env urls True a m
                = (Inr r, h2 @ phase2_calls env (before @ failed_url # after))
             \<and> failed_url \<in> set (failed_urls r)" by blast
next
  fix st
  show "phase2_try env failed_url st
          (h2 @ [NewWebScrapingExtractor, NewPDFExtractor] @ map (phase2_call env) before)
        = (st, h2 @ [NewWebScrapingExtractor, NewPDFExtractor]
                  @ map (phase2_call env) (before @ [failed_url]))"
    using fail by (simp add: phase2_try_found)
next
  fix st
  let ?h3 = "h2 @ [NewWebScrapingExtractor, NewPDFExtractor]"
  have "phase2_try env failed_url st' (?h3 @ map (phase2_call env) before)
          = (st', ?h3 @ map (phase2_call env) (before @ [failed_url]))" for st'
    using fail by (simp add: phase2_try_found)
  then show "phase2_sweep env (before @ failed_url # after) st ?h3
        = phase2_sweep env after (fst (phase2_sweep env before st ?h3))
            (h2 @ [NewWebScrapingExtractor, NewPDFExtractor]
               @ map (phase2_call env) (before @ [failed_url]))"
    by (simp add: phase2_sweep_append)
qed

text \<open>
  In the scenario the PDF extractor raises on the last URL, after the page scraper
  succeeded on the one before.
\<close>

theorem phase2_failure_is_swallowed_witness:
  "new_JournalURLExtractor demo_env [] = Inr ()
   \<and> new_WebScrapingExtractor demo_env demo_log2 = Inr ()
   \<and> new_PDFExtractor demo_env (demo_log2 @ [NewWebScrapingExtractor]) = Inr ()
   \<and> journal_extract_from_urls demo_env [NewJournalURLExtractor] demo_urls = Inr demo_phase1
   \<and> validation_step demo_env True True demo_phase1 [NewJournalURLExtractor, ExtractFromUrls demo_urls]
        = (Inr demo_validated, demo_log2)
   \<and> failed_urls demo_phase1 = [oup_url] @ pdf_url # []
   \<and> pdf_extract_from_url demo_env
        (demo_log2 @ [NewWebScrapingExtractor, NewPDFExtractor, WebExtractFromUrl oup_url]) pdf_url
        = Inl (Raised ''timeout'')
   \<and> (\<exists>r. extract_identifiers_from_bibliography demo_env demo_urls True True True
              = (Inr r, demo_log2 @ phase2_calls demo_env ([oup_url] @ pdf_url # []))
          \<and> pdf_url \<in> set (failed_urls r))"
proof -
  have e: "pdf_extract_from_url demo_env
        (demo_log2 @ [NewWebScrapingExtractor, NewPDFExtractor, WebExtractFromUrl oup_url]) pdf_url
        = Inl (Raised ''timeout'')"
    by (simp add: demo_env_def)
  from phase2_failure_is_swallowed[OF demo_constructed demo_phase1_run demo_validation_run
         demo_web_constructed demo_pdf_constructed demo_snapshot demo_pdf_fails demo_keys]
  have "\<exists>r. extract_identifiers_from_bibliography demo_env demo_urls True True True
              = (Inr r, demo_log2 @ phase2_calls demo_env ([oup_url] @ pdf_url # []))
          \<and> pdf_url \<in> set (failed_urls r)"
    by (rule conjunct1)
  with demo_constructed demo_web_constructed demo_pdf_constructed
    demo_phase1_run demo_validation_run demo_snapshot e show ?thesis by blast
qed

text \<open>
  Claim C4.  Phase 2 sweeps over the failed URLs as Phase 1 left them and removes the
  recovered ones afterwards.  In a batch run with web scraping where Phase 1 left failed
  URLs: the extractor calls are those for the whole list, in order; at the end of the
  sweep the list of failed URLs is still the one of Phase 1; in the result it has lost
  one occurrence for each recovered URL and gained nothing; when it has no repetition
  (the data model makes it a set) it is the old list without the recovered URLs, in the
  old order; and the identifiers of the result are those known after validation
  followed by what Phase 2 found, in the order of the sweep.
\<close>

theorem recovered_urls_removed_after_sweep:
  assumes run: "extract_identifiers_from_bibliography env urls True a m = (Inr r, h)"
      and p1: "journal_extract_from_urls env [NewJournalURLExtractor] urls = Inr r1"
      and v: "validation_step env a m r1 [NewJournalURLExtractor, ExtractFromUrls urls] = (Inr r2, h2)"
      and ne: "failed_urls r1 \<noteq> []"
  shows "h = h2 @ [NewWebScrapingExtractor, NewPDFExtractor] @ map (phase2_call env) (failed_urls r1)
       \<and> failed_urls (res (fst (phase2_sweep env (failed_urls r1) (sweep_start r2)
                                  (h2 @ [NewWebScrapingExtractor, NewPDFExtractor]))))
           = failed_urls r1
       \<and> mset (failed_urls r)
           = mset (failed_urls r1)
             - mset (recovered_urls env (h2 @ [NewWebScrapingExtractor, NewPDFExtractor]) (failed_urls r1))
       \<and> set (failed_urls r) \<subseteq> set (failed_urls r1)
       \<and> (distinct (failed_urls r1) \<longrightarrow>
            failed_urls r
              = filter (\<lambda>url. url \<notin> set (recovered_urls env
                                 (h2 @ [NewWebScrapingExtractor, NewPDFExtractor]) (failed_urls r1)))
                  (failed_urls r1))
       \<and> identifiers r
           = identifiers r2
             @ recovered_identifiers env (h2 @ [NewWebScrapingExtractor, NewPDFExtractor]) (failed_urls r1)"
proof -
  let ?h3 = "h2 @ [NewWebScrapingExtractor, NewPDFExtractor]"
  have r2: "r2 = r1\<lparr>identifiers := identifiers r2\<rparr>" by (rule validation_step_Inr(1)[OF v])
  have fu: "failed_urls r2 = failed_urls r1" by (subst r2) simp
  from run ne fu have ph: "phase2 env r2 h2 = (Inr r, h)"
    by (simp add: batch_unfold[OF batch_constructed[OF run] p1 v])
  note p = phase2_Inr[OF ph, unfolded fu]
  have 1: "h = h2 @ [NewWebScrapingExtractor, NewPDFExtractor] @ map (phase2_call env) (failed_urls r1)"
    using p(1) by (simp add: phase2_calls_def)
  have 2: "failed_urls (res (fst (phase2_sweep env (failed_urls r1) (sweep_start r2) ?h3)))
             = failed_urls r1"
    using fu by (simp add: phase2_sweep_failed_urls sweep_start_def)
  have 3: "mset (failed_urls r)
             = mset (failed_urls r1) - mset (recovered_urls env ?h3 (failed_urls r1))"
    by (simp only: p(3) remove_successful_mset)
  have 4: "set (failed_urls r) \<subseteq> set (failed_urls r1)"
    by (simp only: p(3) remove_successful_subset)
  have 5: "failed_urls r
             = filter (\<lambda>url. url \<notin> set (recovered_urls env ?h3 (failed_urls r1))) (failed_urls r1)"
    if "distinct (failed_urls r1)"
    by (simp only: p(3) remove_successful_filter[OF that])
  from 1 2 3 4 5 p(2) show ?thesis by blast
qed

text \<open>
  In the scenario the journal page is recovered and leaves the list; the PDF stays.
\<close>

theorem recovered_urls_removed_after_sweep_witness:
  "extract_identifiers_from_bibliography demo_env demo_urls True True True = (Inr demo_final, demo_log)
   \<and> journal_extract_from_urls demo_env [NewJournalURLExtractor] demo_urls = Inr demo_phase1
   \<and> validation_step demo_env True True demo_phase1 [NewJournalURLExtractor, ExtractFromUrls demo_urls]
        = (Inr demo_validated, demo_log2)
   \<and> failed_urls demo_phase1 \<noteq> []
   \<and> distinct (failed_urls demo_phase1)
   \<and> recovered_urls demo_env (demo_log2 @ [NewWebScrapingExtractor, NewPDFExtractor])
        (failed_urls demo_phase1) = [oup_url]
   \<and> failed_urls demo_final
        = filter (\<lambda>url. url \<notin> set (recovered_urls demo_env
                          (demo_log2 @ [NewWebScrapingExtractor, NewPDFExtractor])
                          (failed_urls demo_phase1)))
            (failed_urls demo_phase1)
   \<and> identifiers demo_final
        = identifiers demo_validated
          @ recovered_identifiers demo_env (demo_log2 @ [NewWebScrapingExtractor, NewPDFExtractor])
              (failed_urls demo_phase1)"
proof -
  have d: "distinct (failed_urls demo_phase1)"
    by (simp add: demo_phase1_def oup_url_def pdf_url_def)
  have r: "recovered_urls demo_env (demo_log2 @ [NewWebScrapingExtractor, NewPDFExtractor])
        (failed_urls demo_phase1) = [oup_url]"
    by (simp add: recovered_urls_def found_def phase2_extract_def demo_defs)
  note t = recovered_urls_removed_after_sweep[OF demo_run demo_phase1_run demo_validation_run
             demo_failed_nonempty]
  from t d have 1: "failed_urls demo_final
        = filter (\<lambda>url. url \<notin> set (recovered_urls demo_env
                          (demo_log2 @ [NewWebScrapingExtractor, NewPDFExtractor])
                          (failed_urls demo_phase1)))
            (failed_urls demo_phase1)" by blast
  from t have 2: "identifiers demo_final
        = identifiers demo_validated
          @ recovered_identifiers demo_env (demo_log2 @ [NewWebScrapingExtractor, NewPDFExtractor])
              (failed_urls demo_phase1)" by blast
  from demo_run demo_phase1_run demo_validation_run demo_failed_nonempty d r 1 2
  show ?thesis by blast
qed




text \<open>
  Claim C6.  The validation step only adjusts confidence.  When it returns, the failed
  URLs and the statistics are those it was given, there are as many identifiers as
  before, and each has its type, its string and its source URL unchanged, and a
  confidence that is not lower.
\<close>

theorem validation_only_adjusts_confidence:
  assumes "validation_step env use_api_validation use_metapub_validation result h = (Inr result', h')"
  shows "failed_urls result' = failed_urls result
       \<and> extraction_stats result' = extraction_stats result
       \<and> length (identifiers result') = length (identifiers result)
       \<and> (\<forall>k<length (identifiers result).
             type (identifiers result' ! k) = type (identifiers result ! k)
           \<and> value (identifiers result' ! k) = value (identifiers result ! k)
           \<and> source_url (identifiers result' ! k) = source_url (identifiers result ! k)
           \<and> confidence (identifiers result ! k) \<le> confidence (identifiers result' ! k))"
proof -
  note v = validation_step_Inr[OF assms]
  have r: "result' = result\<lparr>identifiers := identifiers result'\<rparr>" by (rule v(1))
  have f: "failed_urls result' = failed_urls result" by (subst r) simp
  have s: "extraction_stats result' = extraction_stats result" by (subst r) simp
  have n: "type (identifiers result' ! k) = type (identifiers result ! k)
           \<and> value (identifiers result' ! k) = value (identifiers result ! k)
           \<and> source_url (identifiers result' ! k) = source_url (identifiers result ! k)
           \<and> confidence (identifiers result ! k) \<le> confidence (identifiers result' ! k)"
    if k: "k < length (identifiers result)" for k
  proof -
    from k v(3) have k': "k < length (identifiers result')" by simp
    have "map type (identifiers result') ! k = map type (identifiers result) ! k"
         "map value (identifiers result') ! k = map value (identifiers result) ! k"
         "map source_url (identifiers result') ! k = map source_url (identifiers result) ! k"
      by (simp_all only: v(4,5,6))
    with k k' have 1: "type (identifiers result' ! k) = type (identifiers result ! k)"
      "value (identifiers result' ! k) = value (identifiers result ! k)"
      "source_url (identifiers result' ! k) = source_url (identifiers result ! k)"
      by simp_all
    have 2: "confidence (identifiers result ! k) \<le> confidence (identifiers result' ! k)"
    proof (cases "use_api_validation \<or> use_metapub_validation")
      case True
      from update_confidence_mono[OF v(7)[OF True] k] show ?thesis .
    next
      case False
      from v(8)[OF False] show ?thesis by simp
    qed
    from 1 2 show ?thesis by simp
  qed
  from f s v(3) n show ?thesis by blast
qed

text \<open>
  In the scenario, with both flags set.
\<close>

theorem validation_only_adjusts_confidence_witness:
  "validation_step demo_env True True demo_phase1 [NewJournalURLExtractor, ExtractFromUrls demo_urls]
        = (Inr demo_validated, demo_log2)
   \<and> failed_urls demo_validated = failed_urls demo_phase1
   \<and> extraction_stats demo_validated = extraction_stats demo_phase1
   \<and> length (identifiers demo_validated) = length (identifiers demo_phase1)
   \<and> (0::nat) < length (identifiers demo_phase1)
   \<and> type (identifiers demo_validated ! 0) = type (identifiers demo_phase1 ! 0)
   \<and> confidence (identifiers demo_phase1 ! 0) \<le> confidence (identifiers demo_validated ! 0)"
proof -
  have l: "(0::nat) < length (identifiers demo_phase1)" by (simp add: demo_phase1_def)
  note t = validation_only_adjusts_confidence[OF demo_validation_run]
  from t l have "type (identifiers demo_validated ! 0) = type (identifiers demo_phase1 ! 0)
     \<and> confidence (identifiers demo_phase1 ! 0) \<le> confidence (identifiers demo_validated ! 0)"
    by blast
  with t l demo_validation_run show ?thesis by blast
qed

text \<open>
  Claim C7.  Phase 2 runs only with web scraping requested and failed URLs left by
  Phase 1, and applies to each of them one extractor, chosen by \<open>is_pdf_url\<close>.  After
  the constructor of line 43, Phase 1 and the validation step have returned \<open>r2\<close> with
  the calls \<open>h2\<close>, in which no call of Phase 2 occurs: without \<open>use_web_scraping\<close>, or
  with no failed URL, the batch call returns \<open>r2\<close> with the calls \<open>h2\<close>.  Otherwise, once
  the two extractors are constructed and \<open>is_pdf_url\<close> returns a truth value on each
  failed URL, the calls of the batch run are \<open>h2\<close>, the two constructors, and for each
  failed URL in order the one call that \<open>dispatch_call\<close> names; what the loop collects
  (the new identifiers and the successful URLs) and what the result holds after the
  identifiers of \<open>r2\<close> is what \<open>dispatch_outcomes\<close> says those calls answered: the answer of
  the PDF extractor where \<open>is_pdf_url\<close> holds, of the page scraper elsewhere.
\<close>

theorem phase2_gate_and_dispatch:
  assumes c0: "new_JournalURLExtractor env [] = Inr ()"
      and p1: "journal_extract_from_urls env [NewJournalURLExtractor] urls = Inr r1"
      and v: "validation_step env a m r1 [NewJournalURLExtractor, ExtractFromUrls urls] = (Inr r2, h2)"
  shows "(\<not> (use_web_scraping \<and> failed_urls r1 \<noteq> []) \<longrightarrow>
            extract_identifiers_from_bibliography env urls use_web_scraping a m = (Inr r2, h2))
       \<and> (\<forall>c \<in> set h2. \<not> is_phase2_call c)
       \<and> (use_web_scraping \<and> failed_urls r1 \<noteq> [] \<longrightarrow>
          new_WebScrapingExtractor env h2 = Inr () \<longrightarrow>
          new_PDFExtractor env (h2 @ [NewWebScrapingExtractor]) = Inr () \<longrightarrow>
          (\<forall>url \<in> set (failed_urls r1). \<exists>b. is_pdf_url env url = Inr b) \<longrightarrow>
            snd (extract_identifiers_from_bibliography env urls use_web_scraping a m)
              = h2 @ [NewWebScrapingExtractor, NewPDFExtractor]
                   @ map (dispatch_call env) (failed_urls r1)
          \<and> phase2_identifiers
                (fst (phase2_sweep env (failed_urls r1) (sweep_start r2)
                        (h2 @ [NewWebScrapingExtractor, NewPDFExtractor])))
              = concat (map found (dispatch_outcomes env
                   (h2 @ [NewWebScrapingExtractor, NewPDFExtractor]) (failed_urls r1)))
          \<and> successful_urls
                (fst (phase2_sweep env (failed_urls r1) (sweep_start r2)
                        (h2 @ [NewWebScrapingExtractor, NewPDFExtractor])))
              = map fst (filter (\<lambda>(url, outcome). found outcome \<noteq> [])
                  (zip (failed_urls r1)
                     (dispatch_outcomes env (h2 @ [NewWebScrapingExtractor, NewPDFExtractor])
                        (failed_urls r1))))
          \<and> (\<forall>r h. extract_identifiers_from_bibliography env urls use_web_scraping a m = (Inr r, h)
                \<longrightarrow> identifiers r
                      = identifiers r2
                        @ concat (map found (dispatch_outcomes env
                            (h2 @ [NewWebScrapingExtractor, NewPDFExtractor]) (failed_urls r1)))))"
proof (intro conjI impI)
  have r2: "r2 = r1\<lparr>identifiers := identifiers r2\<rparr>" by (rule validation_step_Inr(1)[OF v])
  have fu: "failed_urls r2 = failed_urls r1" by (subst r2) simp
  note bu = batch_unfold[OF c0 p1 v, of use_web_scraping]
  let ?h3 = "h2 @ [NewWebScrapingExtractor, NewPDFExtractor]"
  {
    assume "\<not> (use_web_scraping \<and> failed_urls r1 \<noteq> [])"
    with fu have "(use_web_scraping \<and> failed_urls r2 \<noteq> []) = False" by simp
    then show "extract_identifiers_from_bibliography env urls use_web_scraping a m = (Inr r2, h2)"
      by (simp only: bu if_False)
  }
  have "h2 = [NewJournalURLExtractor, ExtractFromUrls urls] @ validator_calls a m (identifiers r1)"
    by (rule validation_step_Inr(2)[OF v])
  then show "\<forall>c \<in> set h2. \<not> is_phase2_call c"
    by (auto simp: validator_calls_def confidence_query_def)
  {
    assume g: "use_web_scraping \<and> failed_urls r1 \<noteq> []"
       and cw: "new_WebScrapingExtractor env h2 = Inr ()"
       and cp: "new_PDFExtractor env (h2 @ [NewWebScrapingExtractor]) = Inr ()"
       and cls: "\<forall>url \<in> set (failed_urls r1). \<exists>b. is_pdf_url env url = Inr b"
    from g fu have "(use_web_scraping \<and> failed_urls r2 \<noteq> []) = True" by simp
    then have b: "extract_identifiers_from_bibliography env urls use_web_scraping a m = phase2 env r2 h2"
      by (simp only: bu if_True)
    note co = classified_outcomes[OF cls, of ?h3]
    show "snd (extract_identifiers_from_bibliography env urls use_web_scraping a m)
              = h2 @ [NewWebScrapingExtractor, NewPDFExtractor]
                   @ map (dispatch_call env) (failed_urls r1)"
      using phase2_log[OF cw cp, of r2] classified_calls[OF cls] fu
      by (simp add: b phase2_calls_def)
    show "phase2_identifiers (fst (phase2_sweep env (failed_urls r1) (sweep_start r2) ?h3))
              = concat (map found (dispatch_outcomes env ?h3 (failed_urls r1)))"
      by (simp add: phase2_sweep_phase2_identifiers sweep_start_def recovered_identifiers_def co)
    show "successful_urls (fst (phase2_sweep env (failed_urls r1) (sweep_start r2) ?h3))
              = map fst (filter (\<lambda>(url, outcome). found outcome \<noteq> [])
                  (zip (failed_urls r1) (dispatch_outcomes env ?h3 (failed_urls r1))))"
      by (simp add: phase2_sweep_successful_urls sweep_start_def recovered_urls_def co)
    show "\<forall>r h. extract_identifiers_from_bibliography env urls use_web_scraping a m = (Inr r, h)
                \<longrightarrow> identifiers r
                      = identifiers r2 @ concat (map found (dispatch_outcomes env ?h3 (failed_urls r1)))"
    proof (intro allI impI)
      fix r h assume "extract_identifiers_from_bibliography env urls use_web_scraping a m = (Inr r, h)"
      with b have "phase2 env r2 h2 = (Inr r, h)" by simp
      from phase2_Inr(2)[OF this] fu co show "identifiers r
          = identifiers r2 @ concat (map found (dispatch_outcomes env ?h3 (failed_urls r1)))"
        by (simp add: recovered_identifiers_def)
    qed
  }
qed

text \<open>
  In the scenario the journal page goes to the page scraper and the PDF to the PDF
  extractor; without web scraping Phase 2 does not run.
\<close>

theorem phase2_gate_and_dispatch_witness:
  "new_JournalURLExtractor demo_env [] = Inr ()
   \<and> journal_extract_from_urls demo_env [NewJournalURLExtractor] demo_urls = Inr demo_phase1
   \<and> validation_step demo_env True True demo_phase1 [NewJournalURLExtractor, ExtractFromUrls demo_urls]
        = (Inr demo_validated, demo_log2)
   \<and> failed_urls demo_phase1 \<noteq> []
   \<and> new_WebScrapingExtractor demo_env demo_log2 = Inr ()
   \<and> new_PDFExtractor demo_env (demo_log2 @ [NewWebScrapingExtractor]) = Inr ()
   \<and> is_pdf_url demo_env oup_url = Inr False
   \<and> is_pdf_url demo_env pdf_url = Inr True
   \<and> snd (extract_identifiers_from_bibliography demo_env demo_urls True True True)
        = demo_log2 @ [NewWebScrapingExtractor, NewPDFExtractor]
            @ map (dispatch_call demo_env) (failed_urls demo_phase1)
   \<and> map (dispatch_call demo_env) (failed_urls demo_phase1)
        = [WebExtractFromUrl oup_url, PdfExtractFromUrl pdf_url]
   \<and> identifiers demo_final
        = identifiers demo_validated
          @ concat (map found (dispatch_outcomes demo_env
              (demo_log2 @ [NewWebScrapingExtractor, NewPDFExtractor]) (failed_urls demo_phase1)))
   \<and> dispatch_outcomes demo_env (demo_log2 @ [NewWebScrapingExtractor, NewPDFExtractor])
          (failed_urls demo_phase1)
        = [Inr [demo_doi], Inl (Raised ''timeout'')]
   \<and> extract_identifiers_from_bibliography demo_env demo_urls False True True
        = (Inr demo_validated, demo_log2)
   \<and> filter is_phase2_call demo_log2 = []"
proof -
  have o: "is_pdf_url demo_env oup_url = Inr False"
    by (simp add: demo_env_def oup_url_def pdf_url_def)
  have p: "is_pdf_url demo_env pdf_url = Inr True"
    by (simp add: demo_env_def)
  have cls: "\<forall>url \<in> set (failed_urls demo_phase1). \<exists>b. is_pdf_url demo_env url = Inr b"
    by (simp add: demo_env_def)
  have g: "True \<and> failed_urls demo_phase1 \<noteq> []" using demo_failed_nonempty by simp
  have dc: "map (dispatch_call demo_env) (failed_urls demo_phase1)
        = [WebExtractFromUrl oup_url, PdfExtractFromUrl pdf_url]"
    by (simp add: dispatch_call_def demo_phase1_def o p)
  have dout: "dispatch_outcomes demo_env (demo_log2 @ [NewWebScrapingExtractor, NewPDFExtractor])
          (failed_urls demo_phase1) = [Inr [demo_doi], Inl (Raised ''timeout'')]"
    by (simp add: dispatch_outcome_def demo_phase1_def o p) (simp add: demo_env_def)
  note t = phase2_gate_and_dispatch[OF demo_constructed demo_phase1_run demo_validation_run, of True]
  note f = phase2_gate_and_dispatch[OF demo_constructed demo_phase1_run demo_validation_run, of False]
  from t g demo_web_constructed demo_pdf_constructed cls
  have 1: "snd (extract_identifiers_from_bibliography demo_env demo_urls True True True)
        = demo_log2 @ [NewWebScrapingExtractor, NewPDFExtractor]
            @ map (dispatch_call demo_env) (failed_urls demo_phase1)"
    by blast
  from t g demo_web_constructed demo_pdf_constructed cls demo_run
  have 2: "identifiers demo_final
        = identifiers demo_validated
          @ concat (map found (dispatch_outcomes demo_env
              (demo_log2 @ [NewWebScrapingExtractor, NewPDFExtractor]) (failed_urls demo_phase1)))"
    by blast
  from f have 3: "extract_identifiers_from_bibliography demo_env demo_urls False True True
        = (Inr demo_validated, demo_log2)" by simp
  from t have "\<forall>c \<in> set demo_log2. \<not> is_phase2_call c" by blast
  then have 4: "filter is_phase2_call demo_log2 = []" by (simp only: filter_empty_conv)
  from demo_constructed demo_phase1_run demo_validation_run demo_failed_nonempty
    demo_web_constructed demo_pdf_constructed o p 1 dc 2 dout 3 4
  show ?thesis by blast
qed

text \<open>
  Claim C8.  The per-type counts reflect the identifiers of the result.  When the
  counts of Phase 1 are the numbers of identifiers of each type that Phase 1 found (the
  Pattern Extractor is to establish that), the counts of the result of a batch run are
  the numbers of identifiers of each type in that result: each is the count of Phase 1
  plus the number of identifiers of that type among the appended ones.
\<close>

theorem per_type_counts_reflect_identifiers:
  assumes run: "extract_identifiers_from_bibliography env urls use_web_scraping a m = (Inr r, h)"
      and p1: "journal_extract_from_urls env [NewJournalURLExtractor] urls = Inr r1"
      and c1: "\<forall>t. extraction_stats r1 (count_key t) = Some (type_count t (identifiers r1))"
  shows "\<forall>t. extraction_stats r (count_key t) = Some (type_count t (identifiers r))
           \<and> extraction_stats r (count_key t)
               = Some (type_count t (identifiers r1)
                       + type_count t (drop (length (identifiers r1)) (identifiers r)))"
proof
  fix t
  from batch_run[OF run p1] obtain r2 h2 where
    v: "validation_step env a m r1 [NewJournalURLExtractor, ExtractFromUrls urls] = (Inr r2, h2)"
    and p2: "(if use_web_scraping \<and> failed_urls r2 \<noteq> [] then phase2 env r2 h2 else (Inr r2, h2)) = (Inr r, h)"
    by blast
  have r2: "r2 = r1\<lparr>identifiers := identifiers r2\<rparr>" by (rule validation_step_Inr(1)[OF v])
  have st: "extraction_stats r2 = extraction_stats r1" by (subst r2) simp
  have len: "length (identifiers r2) = length (identifiers r1)" by (rule validation_step_Inr(3)[OF v])
  have tc: "type_count t (identifiers r2) = type_count t (identifiers r1)"
    by (simp only: type_count_map validation_step_Inr(4)[OF v])
  from c1 st have c2: "extraction_stats r2 (count_key t) = Some (type_count t (identifiers r1))"
    by simp
  show "extraction_stats r (count_key t) = Some (type_count t (identifiers r))
           \<and> extraction_stats r (count_key t)
               = Some (type_count t (identifiers r1)
                       + type_count t (drop (length (identifiers r1)) (identifiers r)))"
  proof (cases "use_web_scraping \<and> failed_urls r2 \<noteq> []")
    case True
    with p2 have ph: "phase2 env r2 h2 = (Inr r, h)" by simp
    from phase2_stats_counts[OF ph c2] phase2_Inr(2)[OF ph] tc len
    show ?thesis by (simp add: type_count_append)
  next
    case False
    with p2 have "r = r2" by simp
    with c2 tc len show ?thesis by (simp add: type_count_def)
  qed
qed

text \<open>
  In the scenario the DOI count goes from 0 to 1.
\<close>

theorem per_type_counts_reflect_identifiers_witness:
  "extract_identifiers_from_bibliography demo_env demo_urls True True True = (Inr demo_final, demo_log)
   \<and> journal_extract_from_urls demo_env [NewJournalURLExtractor] demo_urls = Inr demo_phase1
   \<and> (\<forall>t. extraction_stats demo_phase1 (count_key t) = Some (type_count t (identifiers demo_phase1)))
   \<and> extraction_stats demo_final ''doi_count'' = Some 1
   \<and> (\<forall>t. extraction_stats demo_final (count_key t) = Some (type_count t (identifiers demo_final)))"
proof -
  have d: "extraction_stats demo_final ''doi_count'' = Some 1"
    by (simp add: demo_final_def)
  from per_type_counts_reflect_identifiers[OF demo_run demo_phase1_run demo_counts]
  have "\<forall>t. extraction_stats demo_final (count_key t) = Some (type_count t (identifiers demo_final))"
    by blast
  with demo_run demo_phase1_run demo_counts d show ?thesis by blast
qed

text \<open>
  Claim C9.  Validation runs before Phase 2 and is not run again.  The call list of a
  batch run that returns is: the calls of Phase 1; when a validation flag is set, the
  construction of the validator and one query for each identifier of Phase 1; when
  Phase 2 runs, its calls.  No query of the validator follows a call of Phase 2, and
  the identifiers after those of Phase 1 are what the extractors of Phase 2 returned,
  as they returned them.
\<close>

theorem validation_precedes_phase2:
  assumes run: "extract_identifiers_from_bibliography env urls use_web_scraping a m = (Inr r, h)"
      and p1: "journal_extract_from_urls env [NewJournalURLExtractor] urls = Inr r1"
  shows "h = [NewJournalURLExtractor, ExtractFromUrls urls]
             @ (if a \<or> m then NewCompositeValidator a m # map confidence_query (identifiers r1) else [])
             @ (if use_web_scraping \<and> failed_urls r1 \<noteq> [] then phase2_calls env (failed_urls r1) else [])
       \<and> drop (length (identifiers r1)) (identifiers r)
           = (if use_web_scraping \<and> failed_urls r1 \<noteq> [] then
                recovered_identifiers env
                  ([NewJournalURLExtractor, ExtractFromUrls urls]
                     @ (if a \<or> m then NewCompositeValidator a m # map confidence_query (identifiers r1) else [])
                     @ [NewWebScrapingExtractor, NewPDFExtractor])
                  (failed_urls r1)
              else [])"
proof -
  from batch_run[OF run p1] obtain r2 h2 where
    v: "validation_step env a m r1 [NewJournalURLExtractor, ExtractFromUrls urls] = (Inr r2, h2)"
    and p2: "(if use_web_scraping \<and> failed_urls r2 \<noteq> [] then phase2 env r2 h2 else (Inr r2, h2)) = (Inr r, h)"
    by blast
  have r2: "r2 = r1\<lparr>identifiers := identifiers r2\<rparr>" by (rule validation_step_Inr(1)[OF v])
  have fu: "failed_urls r2 = failed_urls r1" by (subst r2) simp
  have len: "length (identifiers r2) = length (identifiers r1)" by (rule validation_step_Inr(3)[OF v])
  have h2: "h2 = [NewJournalURLExtractor, ExtractFromUrls urls]
             @ (if a \<or> m then NewCompositeValidator a m # map confidence_query (identifiers r1) else [])"
    using validation_step_Inr(2)[OF v] by (simp add: validator_calls_def)
  show ?thesis
  proof (cases "use_web_scraping \<and> failed_urls r2 \<noteq> []")
    case True
    with p2 have ph: "phase2 env r2 h2 = (Inr r, h)" by simp
    from phase2_Inr(1,2)[OF ph] True fu len h2 show ?thesis by simp
  next
    case False
    with p2 have e: "r = r2" "h = h2" by simp_all
    from False fu have g: "(use_web_scraping \<and> failed_urls r1 \<noteq> []) = False" by simp
    show ?thesis unfolding g using e len h2 by simp
  qed
qed

text \<open>
  In the scenario the DOI found in Phase 2 keeps its confidence 0.8 and no query for it
  is in the call list.
\<close>

theorem validation_precedes_phase2_witness:
  "extract_identifiers_from_bibliography demo_env demo_urls True True True = (Inr demo_final, demo_log)
   \<and> journal_extract_from_urls demo_env [NewJournalURLExtractor] demo_urls = Inr demo_phase1
   \<and> drop (length (identifiers demo_phase1)) (identifiers demo_final) = [demo_doi]
   \<and> confidence demo_doi = 0.8
   \<and> get_confidence_score demo_env [] True True (type demo_doi) (value demo_doi) = Inr 0
   \<and> demo_log = [NewJournalURLExtractor, ExtractFromUrls demo_urls]
        @ (NewCompositeValidator True True # map confidence_query (identifiers demo_phase1))
        @ phase2_calls demo_env (failed_urls demo_phase1)"
proof -
  have 1: "drop (length (identifiers demo_phase1)) (identifiers demo_final) = [demo_doi]"
    by (simp add: demo_phase1_def demo_final_def)
  have 2: "confidence demo_doi = 0.8" by (simp add: demo_doi_def)
  have 3: "get_confidence_score demo_env [] True True (type demo_doi) (value demo_doi) = Inr 0"
    by (simp add: demo_env_def demo_doi_def)
  from validation_precedes_phase2[OF demo_run demo_phase1_run] demo_failed_nonempty
  have "demo_log = [NewJournalURLExtractor, ExtractFromUrls demo_urls]
        @ (NewCompositeValidator True True # map confidence_query (identifiers demo_phase1))
        @ phase2_calls demo_env (failed_urls demo_phase1)"
    by simp
  with demo_run demo_phase1_run 1 2 3 show ?thesis by blast
qed

text \<open>
  Claim C10.  The function for one URL does Phase 1 only.  No call of Phase 2 is in its
  call list, whatever the arguments; and when both flags are off, or the Pattern
  Extractor returns no identifier, the function returns (or raises) what the Pattern
  Extractor did, and its call list holds the construction of the extractor and its one
  call: no validator is constructed or queried.  (If the constructor of the extractor
  raises, that exception is the outcome and the constructor the only call.)
\<close>

theorem url_extraction_is_phase1_only:
  "(\<forall>c \<in> set (snd (extract_identifiers_from_url env url a m)). \<not> is_phase2_call c)
   \<and> (\<not> (a \<or> m) \<or> journal_extract_from_url env [NewJournalURLExtractor] url = Inr [] \<longrightarrow>
        extract_identifiers_from_url env url a m
          = (case new_JournalURLExtractor env [] of
               Inl e \<Rightarrow> (Inl e, [NewJournalURLExtractor])
             | Inr extractor \<Rightarrow>
                 (journal_extract_from_url env [NewJournalURLExtractor] url,
                  [NewJournalURLExtractor, ExtractFromUrl url])))"
proof
  let ?h = "[NewJournalURLExtractor, ExtractFromUrl url, NewCompositeValidator a m]"
  have "\<not> is_phase2_call c"
    if "c \<in> set (snd (update_confidence env a m ids ?h))" for c ids
  proof -
    from update_confidence_log_prefix[of env a m ids ?h] obtain n where
      "snd (update_confidence env a m ids ?h) = ?h @ map confidence_query (take n ids)" ..
    with that show ?thesis by (auto simp: confidence_query_def)
  qed
  then show "\<forall>c \<in> set (snd (extract_identifiers_from_url env url a m)). \<not> is_phase2_call c"
    by (auto simp: extract_identifiers_from_url_def split: sum.splits)
next
  show "\<not> (a \<or> m) \<or> journal_extract_from_url env [NewJournalURLExtractor] url = Inr [] \<longrightarrow>
        extract_identifiers_from_url env url a m
          = (case new_JournalURLExtractor env [] of
               Inl e \<Rightarrow> (Inl e, [NewJournalURLExtractor])
             | Inr extractor \<Rightarrow>
                 (journal_extract_from_url env [NewJournalURLExtractor] url,
                  [NewJournalURLExtractor, ExtractFromUrl url]))"
    by (auto simp: extract_identifiers_from_url_def split: sum.splits)
qed

text \<open>
  In the scenario: a URL without identifier with both flags set, a URL with an
  identifier and both flags off, and the same URL with both flags set.
\<close>

theorem url_extraction_is_phase1_only_witness:
  "journal_extract_from_url demo_env [NewJournalURLExtractor] oup_url = Inr []
   \<and> extract_identifiers_from_url demo_env oup_url True True
        = (Inr [], [NewJournalURLExtractor, ExtractFromUrl oup_url])
   \<and> extract_identifiers_from_url demo_env pubmed_url False False
        = (Inr [demo_pmid], [NewJournalURLExtractor, ExtractFromUrl pubmed_url])
   \<and> GetConfidenceScore PMID ''37674083''
        \<in> set (snd (extract_identifiers_from_url demo_env pubmed_url True True))
   \<and> \<not> is_phase2_call (GetConfidenceScore PMID ''37674083'')"
proof -
  have e: "journal_extract_from_url demo_env [NewJournalURLExtractor] oup_url = Inr []"
    by (simp add: demo_env_def oup_url_def pubmed_url_def)
  have p: "journal_extract_from_url demo_env [NewJournalURLExtractor] pubmed_url = Inr [demo_pmid]"
    by (simp add: demo_env_def)
  from url_extraction_is_phase1_only[of demo_env oup_url True True] e demo_constructed
  have 1: "extract_identifiers_from_url demo_env oup_url True True
        = (Inr [], [NewJournalURLExtractor, ExtractFromUrl oup_url])" by simp
  from url_extraction_is_phase1_only[of demo_env pubmed_url False False] p demo_constructed
  have 2: "extract_identifiers_from_url demo_env pubmed_url False False
        = (Inr [demo_pmid], [NewJournalURLExtractor, ExtractFromUrl pubmed_url])" by simp
  have 3: "GetConfidenceScore PMID ''37674083''
        \<in> set (snd (extract_identifiers_from_url demo_env pubmed_url True True))"
    by (simp add: demo_url_run)
  with url_extraction_is_phase1_only[of demo_env pubmed_url True True]
  have 4: "\<not> is_phase2_call (GetConfidenceScore PMID ''37674083'')" by blast
  from e 1 2 3 4 show ?thesis by blast
qed

end
